theory Spec2Isabelle
  imports Complex_Main
begin

section \<open>Constants of the downloader\<close>

text \<open>
  Both scripts (\<^verbatim>\<open>src/download.js\<close> and the later \<^verbatim>\<open>src/unnamed/part_000\<close>, which
  adds the byte limit) start with the same constants.
\<close>

definition CHUNK_SIZE :: nat where
  "CHUNK_SIZE = 50000"

definition HARDCODED_TOTAL :: int where
  "HARDCODED_TOTAL = 211670894"

section \<open>JavaScript values that the scripts compute with\<close>

text \<open>
  A JavaScript number that the scripts obtain from \<^verbatim>\<open>parseInt\<close>: an integer or
  \<^verbatim>\<open>NaN\<close>. Every comparison with \<^verbatim>\<open>NaN\<close> is false. Integers are exact here; the
  rounding of doubles above \<open>2 ^ 53\<close> is not covered.
\<close>

datatype number = NaN | Num int

fun lessThan_number :: "nat \<Rightarrow> number \<Rightarrow> bool" where
  "lessThan_number n NaN = False"
| "lessThan_number n (Num t) = (int n < t)"

fun greaterEq_number :: "nat \<Rightarrow> number \<Rightarrow> bool" where
  "greaterEq_number n NaN = False"
| "greaterEq_number n (Num t) = (int n \<ge> t)"

text \<open>
  ASCII white space, as \<^verbatim>\<open>trim\<close> and \<^verbatim>\<open>parseInt\<close> skip it, and the change of case of the
  ASCII letters; characters beyond ASCII are not covered.
\<close>

definition isSpace :: "char \<Rightarrow> bool" where
  "isSpace c = (c \<in> set [CHR '' '', CHR 0x09, CHR 0x0A, CHR 0x0B, CHR 0x0C, CHR 0x0D])"

definition trim :: "string \<Rightarrow> string" where
  "trim s = rev (dropWhile isSpace (rev (dropWhile isSpace s)))"

definition toUpperCase :: "string \<Rightarrow> string" where
  "toUpperCase s =
     map (\<lambda>c. case map_of (zip ''abcdefghijklmnopqrstuvwxyz'' ''ABCDEFGHIJKLMNOPQRSTUVWXYZ'') c of
                 None \<Rightarrow> c | Some d \<Rightarrow> d) s"

definition toLowerCase :: "string \<Rightarrow> string" where
  "toLowerCase s =
     map (\<lambda>c. case map_of (zip ''ABCDEFGHIJKLMNOPQRSTUVWXYZ'' ''abcdefghijklmnopqrstuvwxyz'') c of
                 None \<Rightarrow> c | Some d \<Rightarrow> d) s"

text \<open>
  \<^verbatim>\<open>parseInt(s)\<close> with no radix: leading white space is skipped, a sign is read, a
  \<^verbatim>\<open>0x\<close> prefix selects base 16, and the longest prefix of digits is the value; with
  no digit at all the result is \<^verbatim>\<open>NaN\<close>.
\<close>

definition digitValue :: "char \<Rightarrow> nat option" where
  "digitValue c = map_of (zip ''0123456789'' [0, 1, 2, 3, 4, 5, 6, 7, 8, 9]) c"

definition hexValue :: "char \<Rightarrow> nat option" where
  "hexValue c =
     map_of (zip ''0123456789abcdef'' [0, 1, 2, 3, 4, 5, 6, 7, 8, 9, 10, 11, 12, 13, 14, 15]
               @ zip ''ABCDEF'' [10, 11, 12, 13, 14, 15]) c"

definition digitsValue :: "nat \<Rightarrow> (char \<Rightarrow> nat option) \<Rightarrow> string \<Rightarrow> number" where
  "digitsValue base val s =
     (let ds = takeWhile (\<lambda>c. val c \<noteq> None) s
      in if ds = [] then NaN
         else Num (int (foldl (\<lambda>acc c. base * acc + the (val c)) 0 ds)))"

fun negate :: "number \<Rightarrow> number" where
  "negate NaN = NaN"
| "negate (Num n) = Num (- n)"

definition parseUnsigned :: "string \<Rightarrow> number" where
  "parseUnsigned s =
     (if take 2 s = ''0x'' \<or> take 2 s = ''0X'' then digitsValue 16 hexValue (drop 2 s)
      else digitsValue 10 digitValue s)"

definition parseInt :: "string \<Rightarrow> number" where
  "parseInt s =
     (case dropWhile isSpace s of
        [] \<Rightarrow> NaN
      | c # cs \<Rightarrow>
          if c = CHR ''-'' then negate (parseUnsigned cs)
          else if c = CHR ''+'' then parseUnsigned cs
          else parseUnsigned (c # cs))"

section \<open>What the scripts print and do to the outside world\<close>

text \<open>
  The output file is written in pieces: the opening bracket, one comma, one record as
  \<^verbatim>\<open>JSON.stringify\<close> printed it, the closing bracket. A file is the list of the
  pieces written to it; its bytes are those of the pieces in order. A record is carried
  as its serialised text, which is all the scripts ever do with it.
\<close>

datatype token = Open | Sep | Rec string | Close

fun render :: "token \<Rightarrow> string" where
  "render Open = ''[''"
| "render Sep = '',''"
| "render (Rec r) = r"
| "render Close = '']''"

definition byteLength :: "token list \<Rightarrow> nat" where
  "byteLength ts = length (concat (map render ts))"

datatype message =
    SizeFetchFailed string
  | SizeFallback
  | ErrorReadingState
  | DatasetFileMissing
  | RetryNotice nat nat
  | LimitReachedNotice nat
  | CompletedNotice
  | PausedNotice nat
  | InterruptedNotice string nat

datatype flag = FlagW | FlagA

datatype event =
    CountQuery nat
  | PageQuery nat nat string nat
  | Sleep nat
  | CreateWriteStream flag
  | WriterWrite "token list"
  | AwaitDrain
  | WriterEnd
  | SaveState nat "nat option"
  | UnlinkState
  | Console message
  | ProcessExit int

section \<open>getDatasetSize\<close>

text \<open>
  The reply to the count query. \<^verbatim>\<open>axios.get\<close> either rejects (timeout, network
  error, error status) or resolves with \<^verbatim>\<open>response.data\<close>, which is nothing
  (\<^verbatim>\<open>null\<close>, \<^verbatim>\<open>undefined\<close>), a text that is not JSON, a JSON object (with no
  \<^verbatim>\<open>length\<close> property), or a JSON array of rows. A row is \<^verbatim>\<open>null\<close> or an object, of
  which only the \<^verbatim>\<open>count\<close> property is read: it is missing, \<^verbatim>\<open>null\<close>, an integer or a
  text.
\<close>

datatype scalar = Undefined | Null | Number int | String string

datatype row = NullRow | Row scalar

datatype body = NoBody | Text string | Object | Rows "row list"

datatype count_reply = Rejected string | Replied body

fun truthy :: "scalar \<Rightarrow> bool" where
  "truthy Undefined = False"
| "truthy Null = False"
| "truthy (Number n) = (n \<noteq> 0)"
| "truthy (String s) = (s \<noteq> [])"

fun parseInt_scalar :: "scalar \<Rightarrow> number" where
  "parseInt_scalar (String s) = parseInt s"
| "parseInt_scalar (Number n) = Num n"
| "parseInt_scalar Undefined = NaN"
| "parseInt_scalar Null = NaN"

definition fallback :: "event list \<Rightarrow> event list \<times> number" where
  "fallback evs = (evs @ [Console SizeFallback], Num HARDCODED_TOTAL)"

text \<open>
  \<^verbatim>\<open>getDatasetSize\<close> is the same in both scripts. A \<^verbatim>\<open>null\<close> first row makes
  \<^verbatim>\<open>response.data[0].count\<close> throw inside the \<^verbatim>\<open>try\<close>, which the \<^verbatim>\<open>catch\<close> turns
  into the warning and the fallback.
\<close>

fun getDatasetSize :: "count_reply \<Rightarrow> event list \<times> number" where
  "getDatasetSize (Rejected msg) =
     fallback [CountQuery 5000, Console (SizeFetchFailed msg)]"
| "getDatasetSize (Replied NoBody) = fallback [CountQuery 5000]"
| "getDatasetSize (Replied (Text s)) = fallback [CountQuery 5000]"
| "getDatasetSize (Replied Object) = fallback [CountQuery 5000]"
| "getDatasetSize (Replied (Rows [])) = fallback [CountQuery 5000]"
| "getDatasetSize (Replied (Rows (NullRow # rs))) =
     fallback [CountQuery 5000, Console (SizeFetchFailed ''TypeError'')]"
| "getDatasetSize (Replied (Rows (Row c # rs))) =
     (if truthy c then ([CountQuery 5000], parseInt_scalar c)
      else fallback [CountQuery 5000])"

section \<open>The persisted state record\<close>

record download_state =
  st_offset :: nat
  st_limitBytes :: "nat option"

text \<open>
  What the state file holds, by what \<^verbatim>\<open>readState\<close> meets when it reads it:
  \<^verbatim>\<open>readFileSync\<close> throws, \<^verbatim>\<open>JSON.parse\<close> throws, or \<^verbatim>\<open>JSON.parse\<close> returns the
  object that \<^verbatim>\<open>saveState\<close> stringified. A missing \<^verbatim>\<open>limitBytes\<close> property (the
  state of \<^verbatim>\<open>download.js\<close>) and \<^verbatim>\<open>null\<close> are both \<open>None\<close>. A file that parses to
  anything else than such an object is not covered.
\<close>

datatype stored = Unreadable | Malformed | Json download_state

datatype exception = ReadError | SyntaxError

text \<open>The body of the \<^verbatim>\<open>try\<close> in \<^verbatim>\<open>readState\<close>; \<open>Inl\<close> is what it throws.\<close>

fun readAndParse :: "stored \<Rightarrow> exception + download_state" where
  "readAndParse Unreadable = Inl ReadError"
| "readAndParse Malformed = Inl SyntaxError"
| "readAndParse (Json s) = Inr s"

definition zero_state :: download_state where
  "zero_state = \<lparr>st_offset = 0, st_limitBytes = None\<rparr>"

text \<open>\<open>None\<close>: \<^verbatim>\<open>fs.existsSync(STATE_FILE)\<close> is false.\<close>

definition readState :: "stored option \<Rightarrow> message list \<times> download_state" where
  "readState f =
     (case f of
        None \<Rightarrow> ([], zero_state)
      | Some content \<Rightarrow>
          (case readAndParse content of
             Inr s \<Rightarrow> ([], s)
           | Inl ex \<Rightarrow> ([ErrorReadingState], zero_state)))"

section \<open>Fetching one page\<close>

datatype page_reply = Failure string | Page "string list"

text \<open>
  The inner \<^verbatim>\<open>while (retries > 0)\<close> loop. \<open>net off k\<close> is the reply to attempt \<open>k\<close>
  (counted from 0) of the request for the page at \<open>off\<close>; the attempt made with
  \<open>retries\<close> left is attempt \<open>3 - retries\<close>. The result is the thrown error or
  \<^verbatim>\<open>records\<close>.
\<close>

fun fetchPage :: "(nat \<Rightarrow> nat \<Rightarrow> page_reply) \<Rightarrow> nat \<Rightarrow> nat \<Rightarrow> nat \<Rightarrow> event list \<times> (string + string list)" where
  "fetchPage net tmo off 0 = ([], Inr [])"
| "fetchPage net tmo off (Suc retries) =
     (case net off (3 - Suc retries) of
        Page records \<Rightarrow> ([PageQuery CHUNK_SIZE off '':id'' tmo], Inr records)
      | Failure e \<Rightarrow>
          if retries = 0 then ([PageQuery CHUNK_SIZE off '':id'' tmo], Inl e)
          else (let (evs, res) = fetchPage net tmo off retries
                in (PageQuery CHUNK_SIZE off '':id'' tmo
                      # Console (RetryNotice (3 - retries) off) # Sleep 2000 # evs, res)))"

section \<open>Disk, writer and run state\<close>

text \<open>
  The two files the scripts own: \<^verbatim>\<open>data/dataset.json\<close> and
  \<^verbatim>\<open>data/download_state.json\<close> (\<open>None\<close>: the file does not exist).
\<close>

record disk =
  data_file :: "token list option"
  state_file :: "stored option"

text \<open>
  A run adds the write stream's internal buffer (what \<^verbatim>\<open>writer.write\<close> accepted and
  the stream has not yet written to the file), the local variables of
  \<^verbatim>\<open>downloadDataset\<close>, and the calls made so far, in order.
\<close>

record machine = disk +
  buffered :: "token list"
  offset :: nat
  downloadedBytes :: nat
  isFirstChunk :: bool
  trace :: "event list"

text \<open>
  The environment of one run: the replies of the remote API, whether
  \<^verbatim>\<open>writer.write\<close> returns \<^verbatim>\<open>true\<close> for the chunk written at an offset, the lines the
  user types, in order, and \<^verbatim>\<open>parseFloat\<close> (\<open>None\<close> is \<^verbatim>\<open>NaN\<close>; a float is taken
  as the rational it denotes).
\<close>

record env =
  count_reply :: count_reply
  page_reply :: "nat \<Rightarrow> nat \<Rightarrow> page_reply"
  can_write :: "nat \<Rightarrow> bool"
  answers :: "string list"
  parseFloat :: "string \<Rightarrow> rat option"

definition record_events :: "event list \<Rightarrow> machine \<Rightarrow> machine" where
  "record_events evs m = m\<lparr>trace := trace m @ evs\<rparr>"

definition saveState :: "nat \<Rightarrow> nat option \<Rightarrow> machine \<Rightarrow> machine" where
  "saveState off lb m =
     record_events [SaveState off lb]
       (m\<lparr>state_file := Some (Json \<lparr>st_offset = off, st_limitBytes = lb\<rparr>)\<rparr>)"

definition unlinkState :: "machine \<Rightarrow> machine" where
  "unlinkState m =
     (if state_file m \<noteq> None then record_events [UnlinkState] (m\<lparr>state_file := None\<rparr>) else m)"

text \<open>
  \<^verbatim>\<open>fs.createWriteStream(FILE_PATH, { flags })\<close>: \<^verbatim>\<open>'w'\<close> creates or truncates the file,
  \<^verbatim>\<open>'a'\<close> creates it when it is missing and keeps it otherwise.
\<close>

fun createWriteStream :: "flag \<Rightarrow> machine \<Rightarrow> machine" where
  "createWriteStream FlagW m = record_events [CreateWriteStream FlagW] (m\<lparr>data_file := Some []\<rparr>)"
| "createWriteStream FlagA m =
     record_events [CreateWriteStream FlagA]
       (m\<lparr>data_file := Some (case data_file m of None \<Rightarrow> [] | Some ts \<Rightarrow> ts)\<rparr>)"

definition writer_write :: "token list \<Rightarrow> machine \<Rightarrow> machine" where
  "writer_write ts m = record_events [WriterWrite ts] (m\<lparr>buffered := buffered m @ ts\<rparr>)"

text \<open>The stream empties its buffer into the file (before \<^verbatim>\<open>'drain'\<close>, and on \<^verbatim>\<open>end\<close>).\<close>

definition flush :: "machine \<Rightarrow> machine" where
  "flush m =
     m\<lparr>data_file := Some ((case data_file m of None \<Rightarrow> [] | Some ts \<Rightarrow> ts) @ buffered m),
       buffered := []\<rparr>"

definition awaitDrain :: "machine \<Rightarrow> machine" where
  "awaitDrain m = record_events [AwaitDrain] (flush m)"

definition writer_end :: "machine \<Rightarrow> machine" where
  "writer_end m = record_events [WriterEnd] (flush m)"

section \<open>The main loop\<close>

text \<open>
  The \<^verbatim>\<open>for\<close> loop that builds \<^verbatim>\<open>chunkData\<close>; \<open>i\<close> is the loop index.
\<close>

fun chunkData :: "bool \<Rightarrow> nat \<Rightarrow> string list \<Rightarrow> token list" where
  "chunkData first i [] = []"
| "chunkData first i (r # rs) =
     (if \<not> first \<or> i > 0 then [Sep] else []) @ [Rec r] @ chunkData first (Suc i) rs"

text \<open>
  The rest of an iteration once the page is accepted: write the chunk, count its bytes,
  wait for \<^verbatim>\<open>'drain'\<close> if \<^verbatim>\<open>write\<close> returned \<^verbatim>\<open>false\<close>, advance the offset, save the
  state. The estimates and the progress bar only display.
\<close>

definition acceptChunk :: "env \<Rightarrow> nat option \<Rightarrow> string list \<Rightarrow> machine \<Rightarrow> machine" where
  "acceptChunk e sizeLimitBytes records m =
     (let chunk = chunkData (isFirstChunk m) 0 records;
          canWrite = can_write e (offset m);
          m1 = writer_write chunk m;
          m2 = m1\<lparr>downloadedBytes := downloadedBytes m1 + byteLength chunk\<rparr>;
          m3 = (if \<not> canWrite then awaitDrain m2 else m2);
          m4 = m3\<lparr>offset := offset m3 + length records, isFirstChunk := False\<rparr>
      in saveState (offset m4) sizeLimitBytes m4)"

datatype stop = EmptyPage | LimitReached | Threw string

datatype step = Stop stop machine | Continue machine

text \<open>
  One iteration of \<^verbatim>\<open>while (offset < totalRecords)\<close>. \<open>tmo\<close> is the request timeout
  (45000 in \<^verbatim>\<open>download.js\<close>, 60000 in \<^verbatim>\<open>part_000\<close>); \<^verbatim>\<open>download.js\<close> has no limit
  check, which is the loop of \<^verbatim>\<open>part_000\<close> with \<^verbatim>\<open>sizeLimitBytes\<close> \<^verbatim>\<open>null\<close>.
\<close>

definition loopBody :: "env \<Rightarrow> nat \<Rightarrow> nat option \<Rightarrow> machine \<Rightarrow> step" where
  "loopBody e tmo sizeLimitBytes m =
     (case fetchPage (page_reply e) tmo (offset m) 3 of
        (evs, Inl err) \<Rightarrow> Stop (Threw err) (record_events evs m)
      | (evs, Inr records) \<Rightarrow>
          if length records = 0 then Stop EmptyPage (record_events evs m)
          else (case sizeLimitBytes of
                  None \<Rightarrow> Continue (acceptChunk e sizeLimitBytes records (record_events evs m))
                | Some b \<Rightarrow>
                    if downloadedBytes m \<ge> b
                    then Stop LimitReached (record_events (evs @ [Console (LimitReachedNotice b)]) m)
                    else Continue (acceptChunk e sizeLimitBytes records (record_events evs m))))"

text \<open>
  The loop returns why it was left (\<open>None\<close>: the condition \<^verbatim>\<open>offset < totalRecords\<close>
  became false) and the state it was left in.
\<close>

function downloadLoop :: "env \<Rightarrow> nat \<Rightarrow> number \<Rightarrow> nat option \<Rightarrow> machine \<Rightarrow> stop option \<times> machine" where
  "downloadLoop e tmo totalRecords sizeLimitBytes m =
     (if lessThan_number (offset m) totalRecords then
        (case loopBody e tmo sizeLimitBytes m of
           Stop why m' \<Rightarrow> (Some why, m')
         | Continue m' \<Rightarrow> downloadLoop e tmo totalRecords sizeLimitBytes m')
      else (None, m))"
  by pat_completeness auto
termination
proof (relation "measure (\<lambda>(e, tmo, total, lb, m).
                   case total of NaN \<Rightarrow> 0 | Num t \<Rightarrow> nat (t - int (offset m)))")
  show "wf (measure (\<lambda>(e, tmo, total, lb, m).
                   case total of NaN \<Rightarrow> 0 | Num t \<Rightarrow> nat (t - int (offset m))))"
    by simp
next
  fix e :: env and tmo :: nat and totalRecords :: number and sizeLimitBytes :: "nat option"
    and m m' :: machine
  assume lt: "lessThan_number (offset m) totalRecords"
    and step: "loopBody e tmo sizeLimitBytes m = Continue m'"
  from step have "offset m < offset m'"
    by (auto simp: loopBody_def acceptChunk_def saveState_def writer_write_def awaitDrain_def
          flush_def record_events_def Let_def
        split: prod.splits sum.splits if_splits option.splits)
  with lt show "((e, tmo, totalRecords, sizeLimitBytes, m'), (e, tmo, totalRecords, sizeLimitBytes, m))
        \<in> measure (\<lambda>(e, tmo, total, lb, m).
                   case total of NaN \<Rightarrow> 0 | Num t \<Rightarrow> nat (t - int (offset m)))"
    by (cases totalRecords) auto
qed

declare downloadLoop.simps [simp del]

section \<open>Negotiating the limit (\<^verbatim>\<open>part_000\<close>)\<close>

text \<open>
  A prompt resolves its promise with a limit (\<open>None\<close> is \<^verbatim>\<open>null\<close>: download all),
  ends the process with \<^verbatim>\<open>process.exit\<close>, or is left without an answer when the
  user types nothing more. Each \<^verbatim>\<open>rl.question\<close> takes the next line typed.
\<close>

datatype prompt = Resolved "nat option" | Exits int | Unanswered

definition bytesOfGB :: "rat \<Rightarrow> nat" where
  "bytesOfGB gb = nat \<lfloor>gb * 1024 * 1024 * 1024\<rfloor>"

fun askNewLimit :: "(string \<Rightarrow> rat option) \<Rightarrow> string list \<Rightarrow> prompt" where
  "askNewLimit pf [] = Unanswered"
| "askNewLimit pf (answer # rest) =
     (if toUpperCase (trim answer) = ''L'' then
        (case rest of
           [] \<Rightarrow> Unanswered
         | limitInput # _ \<Rightarrow>
             (case pf limitInput of
                None \<Rightarrow> Resolved None
              | Some limitGB \<Rightarrow>
                  if limitGB \<le> 0 then Resolved None else Resolved (Some (bytesOfGB limitGB))))
      else Resolved None)"

fun askToExtend :: "(string \<Rightarrow> rat option) \<Rightarrow> string list \<Rightarrow> nat option \<Rightarrow> prompt" where
  "askToExtend pf [] currentLimit = Unanswered"
| "askToExtend pf (answer # rest) currentLimit =
     (let choice = toUpperCase (trim answer) in
      if choice = ''N'' then Exits 0
      else if choice = ''A'' then Resolved None
      else (case pf choice of
              None \<Rightarrow> Exits 0
            | Some addedGB \<Rightarrow>
                if addedGB \<le> 0 then Exits 0
                else Resolved (Some ((case currentLimit of None \<Rightarrow> 0 | Some l \<Rightarrow> l)
                                      + bytesOfGB addedGB))))"

fun askUserForLimit :: "(string \<Rightarrow> rat option) \<Rightarrow> string list \<Rightarrow> nat \<Rightarrow> nat option \<Rightarrow> prompt" where
  "askUserForLimit pf typed currentOffset None = askNewLimit pf typed"
| "askUserForLimit pf typed currentOffset (Some savedLimitBytes) =
     (if currentOffset < savedLimitBytes then
        (case typed of
           [] \<Rightarrow> Unanswered
         | answer # rest \<Rightarrow>
             (let choice = toLowerCase (trim answer) in
              if choice = ''n'' then askNewLimit pf rest
              else if choice = ''extend'' \<or> choice = ''e''
                then askToExtend pf rest (Some savedLimitBytes)
              else Resolved (Some savedLimitBytes)))
      else askToExtend pf typed (Some savedLimitBytes))"

section \<open>downloadDataset\<close>

datatype outcome = Completed | Paused | Failed string | Exited int | AwaitingAnswer

definition fileSize :: "token list option \<Rightarrow> nat" where
  "fileSize f = (case f of None \<Rightarrow> 0 | Some ts \<Rightarrow> byteLength ts)"

text \<open>
  Opening the stream and writing the opening bracket on a fresh start, as both scripts
  do it with \<^verbatim>\<open>offset\<close> and \<^verbatim>\<open>downloadedBytes\<close> set.
\<close>

definition openWriter :: "machine \<Rightarrow> machine" where
  "openWriter m =
     (let m1 = createWriteStream (if offset m = 0 then FlagW else FlagA) m;
          m2 = (if offset m1 = 0
                then (writer_write [Open] m1)\<lparr>downloadedBytes := downloadedBytes m1 + 1\<rparr>
                else m1)
      in m2\<lparr>isFirstChunk := (offset m2 = 0)\<rparr>)"

subsection \<open>\<^verbatim>\<open>src/unnamed/part_000\<close>\<close>

text \<open>
  After the loop, inside the \<^verbatim>\<open>try\<close>: close the array only if
  \<^verbatim>\<open>offset >= totalRecords\<close>; the \<^verbatim>\<open>catch\<close> saves the state.
\<close>

fun finish_part_000 :: "number \<Rightarrow> nat option \<Rightarrow> stop option \<times> machine \<Rightarrow> outcome \<times> machine" where
  "finish_part_000 totalRecords sizeLimitBytes (Some (Threw err), m) =
     (Failed err,
      writer_end (saveState (offset m) sizeLimitBytes
        (record_events [Console (InterruptedNotice err (offset m))] m)))"
| "finish_part_000 totalRecords sizeLimitBytes (why, m) =
     (if greaterEq_number (offset m) totalRecords then
        (Completed,
         writer_end (unlinkState (record_events [Console CompletedNotice] (writer_write [Close] m))))
      else (Paused, writer_end (record_events [Console (PausedNotice (offset m))] m)))"

text \<open>
  Lines 168 to 265: the size query, the stream, and the loop, once the limit is known.
\<close>

definition loop_part_000 :: "env \<Rightarrow> nat option \<Rightarrow> machine \<Rightarrow> stop option \<times> machine" where
  "loop_part_000 e sizeLimitBytes m =
     (let (evs, totalRecords) = getDatasetSize (count_reply e)
      in downloadLoop e 60000 totalRecords sizeLimitBytes (openWriter (record_events evs m)))"

definition proceed_part_000 :: "env \<Rightarrow> nat option \<Rightarrow> machine \<Rightarrow> outcome \<times> machine" where
  "proceed_part_000 e sizeLimitBytes m =
     finish_part_000 (snd (getDatasetSize (count_reply e))) sizeLimitBytes
       (loop_part_000 e sizeLimitBytes m)"

definition init_part_000 :: "disk \<Rightarrow> machine" where
  "init_part_000 d =
     (let (msgs, state) = readState (state_file d)
      in \<lparr>data_file = data_file d, state_file = state_file d, buffered = [],
          offset = st_offset state,
          downloadedBytes =
            (if st_offset state > 0 \<and> data_file d \<noteq> None then fileSize (data_file d) else 0),
          isFirstChunk = (st_offset state = 0),
          trace = map Console msgs\<rparr>)"

definition downloadDataset_part_000 :: "env \<Rightarrow> disk \<Rightarrow> outcome \<times> machine" where
  "downloadDataset_part_000 e d =
     (let m = init_part_000 d
      in case askUserForLimit (parseFloat e) (answers e) (downloadedBytes m)
                (st_limitBytes (snd (readState (state_file d)))) of
           Exits code \<Rightarrow> (Exited code, record_events [ProcessExit code] m)
         | Unanswered \<Rightarrow> (AwaitingAnswer, m)
         | Resolved sizeLimitBytes \<Rightarrow> proceed_part_000 e sizeLimitBytes m)"

subsection \<open>\<^verbatim>\<open>src/download.js\<close>\<close>

text \<open>
  The first version: no limit, the state holds the offset only, a missing dataset file
  resets the offset, and the array is closed whenever the loop is left without an
  exception.
\<close>

definition init_download_js :: "env \<Rightarrow> disk \<Rightarrow> number \<times> machine" where
  "init_download_js e d =
     (let (evs, totalRecords) = getDatasetSize (count_reply e);
          (msgs, state) = readState (state_file d);
          missing = (st_offset state > 0 \<and> data_file d = None);
          m = \<lparr>data_file = data_file d, state_file = state_file d, buffered = [],
               offset = (if missing then 0 else st_offset state),
               downloadedBytes = 0,
               isFirstChunk = False,
               trace = evs @ map Console msgs
                         @ (if missing then [Console DatasetFileMissing] else [])\<rparr>;
          m1 = createWriteStream (if offset m = 0 then FlagW else FlagA) m;
          m2 = m1\<lparr>downloadedBytes :=
                    (if offset m1 > 0 \<and> data_file m1 \<noteq> None then fileSize (data_file m1) else 0)\<rparr>;
          m3 = (if offset m2 = 0
                then (writer_write [Open] m2)\<lparr>downloadedBytes := downloadedBytes m2 + 1\<rparr>
                else m2)
      in (totalRecords, m3\<lparr>isFirstChunk := (offset m3 = 0)\<rparr>))"

fun finish_download_js :: "stop option \<times> machine \<Rightarrow> outcome \<times> machine" where
  "finish_download_js (Some (Threw err), m) =
     (Failed err, writer_end (record_events [Console (InterruptedNotice err (offset m))] m))"
| "finish_download_js (why, m) =
     (Completed,
      record_events [Console CompletedNotice] (unlinkState (writer_end (writer_write [Close] m))))"

definition downloadDataset_download_js :: "env \<Rightarrow> disk \<Rightarrow> outcome \<times> machine" where
  "downloadDataset_download_js e d =
     (let (totalRecords, m) = init_download_js e d
      in finish_download_js (downloadLoop e 45000 totalRecords None m))"

section \<open>Runs in sequence\<close>

definition disk_of :: "machine \<Rightarrow> disk" where
  "disk_of m = \<lparr>data_file = data_file m, state_file = state_file m\<rparr>"

text \<open>
  One run after the other, each in its own environment, each starting from the files
  the one before left.
\<close>

fun runs_part_000 :: "env list \<Rightarrow> disk \<Rightarrow> disk" where
  "runs_part_000 [] d = d"
| "runs_part_000 (e # es) d = runs_part_000 es (disk_of (snd (downloadDataset_part_000 e d)))"

definition empty_disk :: disk where
  "empty_disk = \<lparr>data_file = None, state_file = None\<rparr>"

section \<open>Notions that the properties are stated with\<close>

fun separated :: "'a \<Rightarrow> 'a list \<Rightarrow> 'a list" where
  "separated s [] = []"
| "separated s [x] = [x]"
| "separated s (x # y # zs) = x # s # separated s (y # zs)"

text \<open>
  A JSON array with its closing bracket omitted: the opening bracket, then the records
  with exactly one comma between two neighbours.
\<close>

definition arrayPrefix :: "string list \<Rightarrow> token list" where
  "arrayPrefix rs = Open # separated Sep (map Rec rs)"

fun recordsOf :: "token list \<Rightarrow> string list" where
  "recordsOf [] = []"
| "recordsOf (Rec r # ts) = r # recordsOf ts"
| "recordsOf (t # ts) = recordsOf ts"

definition validPrefix :: "token list \<Rightarrow> bool" where
  "validPrefix ts = (ts = arrayPrefix (recordsOf ts))"

text \<open>Everything written so far: what is in the file, then what the stream still holds.\<close>

definition contents :: "machine \<Rightarrow> token list" where
  "contents m = (case data_file m of None \<Rightarrow> [] | Some ts \<Rightarrow> ts) @ buffered m"

definition persistedOffset :: "stored option \<Rightarrow> nat" where
  "persistedOffset f = st_offset (snd (readState f))"

text \<open>
  The files agree: a positive persisted offset comes with a dataset file that is an
  array prefix of that many records.
\<close>

definition inSync :: "disk \<Rightarrow> bool" where
  "inSync d =
     (persistedOffset (state_file d) = 0
      \<or> (case data_file d of
            None \<Rightarrow> False
          | Some ts \<Rightarrow> validPrefix ts \<and> length (recordsOf ts) = persistedOffset (state_file d)))"

fun isPageQuery :: "event \<Rightarrow> bool" where
  "isPageQuery (PageQuery l off ord tmo) = True"
| "isPageQuery ev = False"

fun isConsole :: "event \<Rightarrow> bool" where
  "isConsole (Console msg) = True"
| "isConsole ev = False"

fun savedOffsets :: "event list \<Rightarrow> nat list" where
  "savedOffsets [] = []"
| "savedOffsets (SaveState off lb # evs) = off # savedOffsets evs"
| "savedOffsets (ev # evs) = savedOffsets evs"

fun touchesFiles :: "event \<Rightarrow> bool" where
  "touchesFiles (CreateWriteStream fl) = True"
| "touchesFiles (WriterWrite ts) = True"
| "touchesFiles (SaveState off lb) = True"
| "touchesFiles UnlinkState = True"
| "touchesFiles WriterEnd = True"
| "touchesFiles AwaitDrain = True"
| "touchesFiles ev = False"

text \<open>
  What has been written is an array prefix of \<^verbatim>\<open>offset\<close> records, and
  \<^verbatim>\<open>isFirstChunk\<close> says that there is none yet.
\<close>

definition wellFormed :: "machine \<Rightarrow> bool" where
  "wellFormed m =
     (validPrefix (contents m) \<and> length (recordsOf (contents m)) = offset m
      \<and> isFirstChunk m = (offset m = 0))"

text \<open>
  The offsets saved during the loop come after those saved before it, ascend, and lie
  above the offset at which the loop was entered and up to the current one.
\<close>

definition ascending_from :: "machine \<Rightarrow> machine \<Rightarrow> bool" where
  "ascending_from m x =
     (offset m \<le> offset x
      \<and> (\<exists>new. savedOffsets (trace x) = savedOffsets (trace m) @ new \<and> sorted new
             \<and> (\<forall>off \<in> set new. offset m < off \<and> off \<le> offset x)))"

text \<open>
  A dataset file is in order when it is an array prefix or an array prefix with the
  closing bracket after it.
\<close>

definition wellSeparated :: "token list \<Rightarrow> bool" where
  "wellSeparated ts =
     (ts = arrayPrefix (recordsOf ts) \<or> ts = arrayPrefix (recordsOf ts) @ [Close])"

definition orderly :: "disk \<Rightarrow> bool" where
  "orderly d =
     (inSync d \<and> (case data_file d of None \<Rightarrow> True | Some ts \<Rightarrow> wellSeparated ts))"

section \<open>Environments of example runs\<close>

text \<open>
  A user who sets a limit of 0.00000001 GB (10 bytes) against a dataset that serves two
  records a page; and a network that fails for good after the first page.
\<close>

definition limit_env :: env where
  "limit_env =
     \<lparr>count_reply = Replied (Rows [Row (String ''100'')]),
      page_reply = (\<lambda>off k. Page [''{}'', ''{}'']),
      can_write = (\<lambda>off. False),
      answers = [''L'', ''0.00000001''],
      parseFloat = (\<lambda>s. if s = ''0.00000001'' then Some (1 / 100000000) else None)\<rparr>"

definition failing_env :: env where
  "failing_env =
     \<lparr>count_reply = Rejected ''timeout of 5000ms exceeded'',
      page_reply = (\<lambda>off k. if off = 0 then Page [''{}'', ''{}''] else Failure ''ECONNRESET''),
      can_write = (\<lambda>off. True),
      answers = [''A''],
      parseFloat = (\<lambda>s. None)\<rparr>"

text \<open>
  A dataset of two records, fewer than the total the script assumes when the size query
  times out; the user asks for all of it.
\<close>

definition short_dataset_env :: env where
  "short_dataset_env =
     \<lparr>count_reply = Rejected ''timeout of 5000ms exceeded'',
      page_reply = (\<lambda>off k. if off = 0 then Page [''{}'', ''{}''] else Page []),
      can_write = (\<lambda>off. False),
      answers = [''A''],
      parseFloat = (\<lambda>s. None)\<rparr>"

text \<open>
  A run resumed with the saved limit of 4 bytes over the file an earlier run left
  (3 bytes, one record), against a dataset of two records served one a page.
\<close>

definition resume_env :: env where
  "resume_env =
     \<lparr>count_reply = Replied (Rows [Row (String ''2'')]),
      page_reply = (\<lambda>off k. Page [''{}'']),
      can_write = (\<lambda>off. False),
      answers = [''''],
      parseFloat = (\<lambda>s. None)\<rparr>"

definition resumed_disk :: disk where
  "resumed_disk =
     \<lparr>data_file = Some [Open, Rec ''{}''],
      state_file = Some (Json \<lparr>st_offset = 1, st_limitBytes = Some 4\<rparr>)\<rparr>"

text \<open>
  A file of 6 bytes under a saved limit of 4 bytes, and a user who types one line at
  the prompt that follows.
\<close>

definition reached_disk :: disk where
  "reached_disk =
     \<lparr>data_file = Some [Open, Rec ''{}'', Sep, Rec ''{}''],
      state_file = Some (Json \<lparr>st_offset = 2, st_limitBytes = Some 4\<rparr>)\<rparr>"

definition quitting_env :: "string \<Rightarrow> env" where
  "quitting_env answer =
     \<lparr>count_reply = Replied (Rows [Row (String ''100'')]),
      page_reply = (\<lambda>off k. Page [''{}'']),
      can_write = (\<lambda>off. True),
      answers = [answer],
      parseFloat = (\<lambda>s. if s = ''-1'' then Some (- 1) else None)\<rparr>"

text \<open>
  The files a completed run leaves, and a state file whose dataset file is gone.
\<close>

definition completed_disk :: disk where
  "completed_disk =
     \<lparr>data_file = Some [Open, Rec ''{}'', Sep, Rec ''{}'', Close], state_file = None\<rparr>"

definition orphaned_disk :: disk where
  "orphaned_disk =
     \<lparr>data_file = None, state_file = Some (Json \<lparr>st_offset = 2, st_limitBytes = None\<rparr>)\<rparr>"

text \<open>
  A dataset of four records served two a page, with the exact count reported; the user
  asks for all of it.
\<close>

definition four_records_env :: env where
  "four_records_env =
     \<lparr>count_reply = Replied (Rows [Row (String ''4'')]),
      page_reply = (\<lambda>off k. Page [''{}'', ''{}'']),
      can_write = (\<lambda>off. False),
      answers = [''A''],
      parseFloat = (\<lambda>s. None)\<rparr>"

text \<open>A size query answered with a count that is no number.\<close>

definition garbled_count_env :: env where
  "garbled_count_env =
     \<lparr>count_reply = Replied (Rows [Row (String ''abc'')]),
      page_reply = (\<lambda>off k. Page [''{}'', ''{}'']),
      can_write = (\<lambda>off. False),
      answers = [''A''],
      parseFloat = (\<lambda>s. None)\<rparr>"

section \<open>Evaluating the models\<close>

lemmas parse_defs =
  parseInt_def parseUnsigned_def digitsValue_def digitValue_def hexValue_def isSpace_def
  trim_def toUpperCase_def toLowerCase_def

lemmas writer_defs =
  saveState_def unlinkState_def writer_write_def flush_def awaitDrain_def writer_end_def
  record_events_def

section \<open>readState\<close>

text \<open>
  Claim C7. \<^verbatim>\<open>readState\<close> returns the zero-value state (offset 0, no limit) whenever
  the state file is absent or reading or parsing it throws; in the second case the
  error is printed and nothing is thrown on: the result is a state in every case.
\<close>

theorem readState_zero_on_absent_or_corrupt:
  "f = None \<or> (\<exists>content ex. f = Some content \<and> readAndParse content = Inl ex) \<Longrightarrow>
     snd (readState f) = \<lparr>st_offset = 0, st_limitBytes = None\<rparr>
     \<and> fst (readState f) = (if f = None then [] else [ErrorReadingState])"
  by (auto simp: readState_def zero_state_def)

theorem readState_zero_on_absent_or_corrupt_witness:
  "readState (Some Malformed) = ([ErrorReadingState], \<lparr>st_offset = 0, st_limitBytes = None\<rparr>)
   \<and> readState (Some Unreadable) = ([ErrorReadingState], \<lparr>st_offset = 0, st_limitBytes = None\<rparr>)
   \<and> readState None = ([], \<lparr>st_offset = 0, st_limitBytes = None\<rparr>)"
  using readState_zero_on_absent_or_corrupt [of "Some Malformed"]
    readState_zero_on_absent_or_corrupt [of "Some Unreadable"]
    readState_zero_on_absent_or_corrupt [of None]
  by (auto simp: prod_eq_iff)

lemma readState_parsed: "readState (Some (Json s)) = ([], s)"
  by (simp add: readState_def)

section \<open>getDatasetSize\<close>

text \<open>
  The failures that \<^verbatim>\<open>getDatasetSize\<close> answers with the hardcoded total, and the
  count it returns otherwise.
\<close>

lemma getDatasetSize_fallback:
  "reply = Rejected msg \<or> reply = Replied NoBody \<or> reply = Replied (Text s)
     \<or> reply = Replied Object \<or> reply = Replied (Rows [])
     \<or> reply = Replied (Rows (NullRow # rs))
     \<or> (reply = Replied (Rows (Row c # rs)) \<and> \<not> truthy c) \<Longrightarrow>
   snd (getDatasetSize reply) = Num 211670894"
  by (auto simp: fallback_def HARDCODED_TOTAL_def)

lemma getDatasetSize_success:
  "truthy c \<Longrightarrow> snd (getDatasetSize (Replied (Rows (Row c # rs)))) = parseInt_scalar c"
  by simp

lemma getDatasetSize_reported_count:
  "getDatasetSize (Replied (Rows [Row (String ''211670894'')])) = ([CountQuery 5000], Num 211670894)"
  by (simp add: parse_defs)

text \<open>
  Claim C8. A reply whose \<^verbatim>\<open>count\<close> is a non-empty text that is not a number passes
  the three checks that guard \<^verbatim>\<open>parseInt\<close>, and \<^verbatim>\<open>parseInt\<close> of it is returned:
  \<^verbatim>\<open>NaN\<close>, not the hardcoded total.
\<close>

theorem getDatasetSize_nonnumeric_count:
  "getDatasetSize (Replied (Rows [Row (String ''abc'')])) = ([CountQuery 5000], NaN)"
  by (simp add: parse_defs)

section \<open>Fetching one page\<close>

lemma fetchPage_3:
  "fetchPage net tmo off 3 =
     (let q = PageQuery CHUNK_SIZE off '':id'' tmo in
      case net off 0 of
        Page r \<Rightarrow> ([q], Inr r)
      | Failure e0 \<Rightarrow>
          (case net off 1 of
             Page r \<Rightarrow> ([q, Console (RetryNotice 1 off), Sleep 2000, q], Inr r)
           | Failure e1 \<Rightarrow>
               (case net off 2 of
                  Page r \<Rightarrow> ([q, Console (RetryNotice 1 off), Sleep 2000,
                              q, Console (RetryNotice 2 off), Sleep 2000, q], Inr r)
                | Failure e2 \<Rightarrow> ([q, Console (RetryNotice 1 off), Sleep 2000,
                              q, Console (RetryNotice 2 off), Sleep 2000, q], Inl e2))))"
  by (simp add: numeral_3_eq_3 numeral_2_eq_2 Let_def split: page_reply.splits)

text \<open>
  Claim C9. Fetching the page at \<open>off\<close> makes \<open>n\<close> requests with \<open>1 \<le> n \<le> 3\<close>, each
  with \<^verbatim>\<open>$limit\<close> the chunk size, \<^verbatim>\<open>$offset\<close> \<open>off\<close> and \<^verbatim>\<open>$order\<close> \<^verbatim>\<open>:id\<close>; apart from
  what is printed, the calls are these requests with one sleep of 2000 ms between two
  of them; every request but the last failed; the result is the page of the last
  request, or, when the third request failed too, its error, thrown on.
\<close>

theorem fetchPage_three_attempts:
  "let (evs, res) = fetchPage net tmo off 3;
       calls = filter (\<lambda>ev. \<not> isConsole ev) evs;
       n = length (filter isPageQuery evs)
   in 1 \<le> n \<and> n \<le> 3
      \<and> calls = separated (Sleep 2000) (replicate n (PageQuery CHUNK_SIZE off '':id'' tmo))
      \<and> (\<forall>k < n - 1. \<exists>e. net off k = Failure e)
      \<and> (case res of
            Inr records \<Rightarrow> net off (n - 1) = Page records
          | Inl err \<Rightarrow> n = 3 \<and> net off 2 = Failure err)"
  by (auto simp: fetchPage_3 Let_def numeral_3_eq_3 numeral_2_eq_2 less_Suc_eq
           split: page_reply.splits)

theorem fetchPage_three_attempts_witness:
  "fetchPage (\<lambda>off k. if k < 2 then Failure ''timeout'' else Page [''{}'']) 60000 100 3 =
     ([PageQuery 50000 100 '':id'' 60000, Console (RetryNotice 1 100), Sleep 2000,
       PageQuery 50000 100 '':id'' 60000, Console (RetryNotice 2 100), Sleep 2000,
       PageQuery 50000 100 '':id'' 60000], Inr [''{}''])"
  using fetchPage_three_attempts
          [of "\<lambda>off k. if k < 2 then Failure ''timeout'' else Page [''{}'']" 60000 100]
  by (simp add: numeral_3_eq_3 CHUNK_SIZE_def)

section \<open>Facts about the writer and the loop\<close>

lemma byteLength_append: "byteLength (xs @ ys) = byteLength xs + byteLength ys"
  by (simp add: byteLength_def)

lemma record_events_fields [simp]:
  "offset (record_events evs m) = offset m"
  "downloadedBytes (record_events evs m) = downloadedBytes m"
  "isFirstChunk (record_events evs m) = isFirstChunk m"
  "data_file (record_events evs m) = data_file m"
  "state_file (record_events evs m) = state_file m"
  "buffered (record_events evs m) = buffered m"
  "trace (record_events evs m) = trace m @ evs"
  by (simp_all add: record_events_def)

lemma contents_record_events [simp]: "contents (record_events evs m) = contents m"
  by (simp add: contents_def)

lemma acceptChunk_fields:
  "offset (acceptChunk e lb recs m) = offset m + length recs"
  "downloadedBytes (acceptChunk e lb recs m)
     = downloadedBytes m + byteLength (chunkData (isFirstChunk m) 0 recs)"
  "isFirstChunk (acceptChunk e lb recs m) = False"
  "state_file (acceptChunk e lb recs m)
     = Some (Json \<lparr>st_offset = offset m + length recs, st_limitBytes = lb\<rparr>)"
  "contents (acceptChunk e lb recs m) = contents m @ chunkData (isFirstChunk m) 0 recs"
  "trace (acceptChunk e lb recs m)
     = trace m @ [WriterWrite (chunkData (isFirstChunk m) 0 recs)]
         @ (if can_write e (offset m) then [] else [AwaitDrain])
         @ [SaveState (offset m + length recs) lb]"
  by (simp_all add: acceptChunk_def Let_def writer_defs contents_def split: option.splits)

lemma fetchPage_quiet:
  "fetchPage net tmo off 3 = (evs, res) \<Longrightarrow> \<forall>ev \<in> set evs. \<not> touchesFiles ev"
  by (auto simp: fetchPage_3 Let_def split: page_reply.splits)

lemma loopBody_Stop:
  assumes "loopBody e tmo lb m = Stop why m'"
  shows "\<exists>evs. m' = record_events evs m \<and> (\<forall>ev \<in> set evs. \<not> touchesFiles ev)"
proof -
  obtain evs res where f: "fetchPage (page_reply e) tmo (offset m) 3 = (evs, res)"
    by (cases "fetchPage (page_reply e) tmo (offset m) 3") auto
  then have q: "\<forall>ev \<in> set evs. \<not> touchesFiles ev" by (rule fetchPage_quiet)
  from f assms have "m' = record_events evs m
      \<or> (\<exists>b. m' = record_events (evs @ [Console (LimitReachedNotice b)]) m)"
    by (auto simp: loopBody_def split: sum.splits if_splits option.splits)
  then show ?thesis
  proof
    assume "m' = record_events evs m"
    with q show ?thesis by blast
  next
    assume "\<exists>b. m' = record_events (evs @ [Console (LimitReachedNotice b)]) m"
    then obtain b where "m' = record_events (evs @ [Console (LimitReachedNotice b)]) m" ..
    moreover from q have "\<forall>ev \<in> set (evs @ [Console (LimitReachedNotice b)]). \<not> touchesFiles ev"
      by simp
    ultimately show ?thesis by blast
  qed
qed

lemma fetchPage_Inr:
  "fetchPage net tmo off 3 = (evs, Inr recs) \<Longrightarrow>
     net off 0 = Page recs \<or> net off 1 = Page recs \<or> net off 2 = Page recs"
  by (auto simp: fetchPage_3 Let_def split: page_reply.splits)

lemma loopBody_Continue:
  assumes "loopBody e tmo lb m = Continue m'"
  shows "\<exists>evs recs. recs \<noteq> [] \<and> m' = acceptChunk e lb recs (record_events evs m)
        \<and> (\<forall>ev \<in> set evs. \<not> touchesFiles ev)
        \<and> (\<forall>b. lb = Some b \<longrightarrow> downloadedBytes m < b)
        \<and> (page_reply e (offset m) 0 = Page recs \<or> page_reply e (offset m) 1 = Page recs
             \<or> page_reply e (offset m) 2 = Page recs)"
proof -
  obtain evs res where f: "fetchPage (page_reply e) tmo (offset m) 3 = (evs, res)"
    by (cases "fetchPage (page_reply e) tmo (offset m) 3") auto
  show ?thesis
  proof (cases res)
    case (Inl err)
    with f assms show ?thesis by (simp add: loopBody_def)
  next
    case (Inr recs)
    with f assms have ne: "recs \<noteq> []" and lim: "\<forall>b. lb = Some b \<longrightarrow> downloadedBytes m < b"
      and m': "m' = acceptChunk e lb recs (record_events evs m)"
      by (auto simp: loopBody_def split: if_splits option.splits)
    from f Inr have "page_reply e (offset m) 0 = Page recs \<or> page_reply e (offset m) 1 = Page recs
             \<or> page_reply e (offset m) 2 = Page recs"
      by (auto dest: fetchPage_Inr)
    moreover from f have "\<forall>ev \<in> set evs. \<not> touchesFiles ev" by (rule fetchPage_quiet)
    ultimately show ?thesis using ne lim m' by blast
  qed
qed

lemma downloadLoop_invariant:
  assumes "downloadLoop e tmo totalRecords lb m = (why, m')"
    and "P m"
    and "\<And>m evs. P m \<Longrightarrow> \<forall>ev \<in> set evs. \<not> touchesFiles ev \<Longrightarrow> P (record_events evs m)"
    and "\<And>m recs. P m \<Longrightarrow> recs \<noteq> [] \<Longrightarrow>
           page_reply e (offset m) 0 = Page recs \<or> page_reply e (offset m) 1 = Page recs
             \<or> page_reply e (offset m) 2 = Page recs \<Longrightarrow>
           \<forall>b. lb = Some b \<longrightarrow> downloadedBytes m < b \<Longrightarrow> P (acceptChunk e lb recs m)"
  shows "P m'"
  using assms
proof (induction e tmo totalRecords lb m rule: downloadLoop.induct)
  case (1 e tmo totalRecords lb m)
  note run = "1.prems"(1) and start = "1.prems"(2) and ev = "1.prems"(3) and acc = "1.prems"(4)
  show ?case
  proof (cases "lessThan_number (offset m) totalRecords")
    case False
    with run start show ?thesis by (simp add: downloadLoop.simps)
  next
    case True
    show ?thesis
    proof (cases "loopBody e tmo lb m")
      case (Stop w m1)
      with True run have "m' = m1" by (simp add: downloadLoop.simps)
      with loopBody_Stop [OF Stop] start ev show ?thesis by blast
    next
      case (Continue m1)
      from loopBody_Continue [OF Continue] obtain evs recs where
        r: "recs \<noteq> []" "m1 = acceptChunk e lb recs (record_events evs m)"
           "\<forall>ev \<in> set evs. \<not> touchesFiles ev"
           "\<forall>b. lb = Some b \<longrightarrow> downloadedBytes m < b"
           "page_reply e (offset m) 0 = Page recs \<or> page_reply e (offset m) 1 = Page recs
             \<or> page_reply e (offset m) 2 = Page recs" by blast
      have "P (record_events evs m)" using start r(3) by (rule ev)
      then have "P m1" unfolding r(2)
        by (rule acc) (use r in simp_all)
      moreover from True Continue run have "downloadLoop e tmo totalRecords lb m1 = (why, m')"
        by (simp add: downloadLoop.simps)
      ultimately show ?thesis using "1.IH" [OF True Continue] ev acc by blast
    qed
  qed
qed


lemma downloadLoop_left:
  assumes "downloadLoop e tmo totalRecords lb m = (why, m')"
  shows "case why of
           None \<Rightarrow> \<not> lessThan_number (offset m') totalRecords
         | Some w \<Rightarrow> \<exists>m1. loopBody e tmo lb m1 = Stop w m' \<and> lessThan_number (offset m1) totalRecords"
  using assms
proof (induction e tmo totalRecords lb m rule: downloadLoop.induct)
  case (1 e tmo totalRecords lb m)
  show ?case
  proof (cases "lessThan_number (offset m) totalRecords")
    case False
    with "1.prems" show ?thesis by (simp add: downloadLoop.simps)
  next
    case True
    show ?thesis
    proof (cases "loopBody e tmo lb m")
      case (Stop w m1)
      with True "1.prems" have "why = Some w" "m' = m1" by (simp_all add: downloadLoop.simps)
      with Stop True show ?thesis by auto
    next
      case (Continue m1)
      with True "1.prems" have "downloadLoop e tmo totalRecords lb m1 = (why, m')"
        by (simp add: downloadLoop.simps)
      with "1.IH" [OF True Continue] show ?thesis .
    qed
  qed
qed

lemma downloadLoop_Some:
  assumes "downloadLoop e tmo totalRecords lb m = (Some w, m')"
  shows "lessThan_number (offset m') totalRecords"
    and "w = LimitReached \<Longrightarrow> \<exists>b. lb = Some b \<and> b \<le> downloadedBytes m'"
proof -
  from downloadLoop_left [OF assms] obtain m1 where
    s: "loopBody e tmo lb m1 = Stop w m'" and lt: "lessThan_number (offset m1) totalRecords"
    by auto
  from loopBody_Stop [OF s] obtain evs where m': "m' = record_events evs m1" by blast
  with lt show "lessThan_number (offset m') totalRecords" by simp
  show "\<exists>b. lb = Some b \<and> b \<le> downloadedBytes m'" if "w = LimitReached"
    using s that
    by (auto simp: loopBody_def split: prod.splits sum.splits if_splits option.splits)
qed

lemma downloadLoop_None:
  "downloadLoop e tmo totalRecords lb m = (None, m') \<Longrightarrow> \<not> lessThan_number (offset m') totalRecords"
  using downloadLoop_left [of e tmo totalRecords lb m None m'] by simp

section \<open>Chunks and array prefixes\<close>

lemma chunkData_False: "chunkData False i recs = concat (map (\<lambda>r. [Sep, Rec r]) recs)"
  by (induction recs arbitrary: i) auto

lemma chunkData_Suc: "chunkData first (Suc i) recs = concat (map (\<lambda>r. [Sep, Rec r]) recs)"
  by (induction recs arbitrary: i) auto

lemma chunkData_True:
  "chunkData True 0 (r # recs) = Rec r # concat (map (\<lambda>r. [Sep, Rec r]) recs)"
  by (simp add: chunkData_Suc)

lemma Close_notin_chunkData: "Close \<notin> set (chunkData first i recs)"
  by (induction recs arbitrary: i) auto

lemma recordsOf_append: "recordsOf (xs @ ys) = recordsOf xs @ recordsOf ys"
  by (induction xs rule: recordsOf.induct) auto

lemma recordsOf_chunkData: "recordsOf (chunkData first i recs) = recs"
  by (induction recs arbitrary: i) auto

lemma separated_snoc:
  "xs \<noteq> [] \<Longrightarrow> separated s (xs @ ys) = separated s xs @ concat (map (\<lambda>y. [s, y]) ys)"
proof (induction s xs rule: separated.induct)
  case (1 s)
  then show ?case by simp
next
  case (2 s x)
  show ?case by (induction ys arbitrary: x) auto
next
  case (3 s x y zs)
  then show ?case by simp
qed

lemma recordsOf_separated: "recordsOf (separated Sep (map Rec rs)) = rs"
  by (induction rs rule: induct_list012) auto

lemma recordsOf_arrayPrefix [simp]: "recordsOf (arrayPrefix rs) = rs"
  by (simp add: arrayPrefix_def recordsOf_separated)

lemma validPrefix_arrayPrefix [simp]: "validPrefix (arrayPrefix rs)"
  by (simp add: validPrefix_def)

lemma arrayPrefix_chunk:
  "recs \<noteq> [] \<Longrightarrow> arrayPrefix rs @ chunkData (rs = []) 0 recs = arrayPrefix (rs @ recs)"
proof (cases rs)
  case Nil
  assume "recs \<noteq> []"
  then obtain r recs' where "recs = r # recs'" by (cases recs) auto
  with Nil show ?thesis
    using separated_snoc [of "[Rec r]" Sep "map Rec recs'"]
    by (simp add: arrayPrefix_def chunkData_Suc map_concat comp_def)
next
  case (Cons a list)
  then show ?thesis
    using separated_snoc [of "map Rec rs" Sep "map Rec recs"]
    by (simp add: arrayPrefix_def chunkData_False comp_def map_concat)
qed

lemma count_Sep_separated:
  "count_list (separated Sep (map Rec rs)) Sep = length rs - 1"
  by (induction rs rule: induct_list012) auto

lemma count_Sep_arrayPrefix: "count_list (arrayPrefix rs) Sep = length rs - 1"
  by (simp add: arrayPrefix_def count_Sep_separated)

lemma Close_notin_arrayPrefix: "Close \<notin> set (arrayPrefix rs)"
  by (induction rs rule: induct_list012) (auto simp: arrayPrefix_def)

lemma arrayPrefix_ends:
  "rs \<noteq> [] \<Longrightarrow> arrayPrefix rs ! 1 = Rec (hd rs) \<and> last (arrayPrefix rs) = Rec (last rs)"
  by (induction rs rule: induct_list012) (auto simp: arrayPrefix_def)

section \<open>What the loop keeps\<close>

lemma wellFormed_acceptChunk:
  assumes "wellFormed m" and "recs \<noteq> []"
  shows "wellFormed (acceptChunk e lb recs m)"
proof -
  let ?rs = "recordsOf (contents m)"
  from assms(1) have c: "contents m = arrayPrefix ?rs" and n: "length ?rs = offset m"
    and f: "isFirstChunk m = (offset m = 0)"
    by (simp_all add: wellFormed_def validPrefix_def)
  from n f have "isFirstChunk m = (?rs = [])" by auto
  with c have "contents m @ chunkData (isFirstChunk m) 0 recs = arrayPrefix (?rs @ recs)"
    using arrayPrefix_chunk [OF assms(2), of ?rs] by simp
  then show ?thesis
    using n assms(2) by (simp add: wellFormed_def acceptChunk_fields)
qed

lemma wellFormed_record_events [simp]: "wellFormed (record_events evs m) = wellFormed m"
  by (simp add: wellFormed_def)

lemma downloadLoop_wellFormed:
  "downloadLoop e tmo totalRecords lb m = (why, m') \<Longrightarrow> wellFormed m \<Longrightarrow> wellFormed m'"
  by (erule downloadLoop_invariant [where P = wellFormed]) (simp_all add: wellFormed_acceptChunk)

lemma downloadLoop_bytes:
  "downloadLoop e tmo totalRecords lb m = (why, m') \<Longrightarrow>
     downloadedBytes m = byteLength (contents m) \<Longrightarrow> downloadedBytes m' = byteLength (contents m')"
  by (erule downloadLoop_invariant [where P = "\<lambda>m. downloadedBytes m = byteLength (contents m)"])
     (simp_all add: acceptChunk_fields byteLength_append)

lemma downloadLoop_opened:
  "downloadLoop e tmo totalRecords lb m = (why, m') \<Longrightarrow> data_file m \<noteq> None \<Longrightarrow> data_file m' \<noteq> None"
  by (erule downloadLoop_invariant [where P = "\<lambda>m. data_file m \<noteq> None"])
     (auto simp: acceptChunk_def Let_def writer_defs)

text \<open>
  The state file after the loop: untouched while no chunk was accepted, and the state
  saved for the current offset otherwise.
\<close>

lemma downloadLoop_state:
  assumes "downloadLoop e tmo totalRecords lb m = (why, m')"
  shows "offset m \<le> offset m'
     \<and> state_file m' = (if offset m' = offset m then state_file m
                        else Some (Json \<lparr>st_offset = offset m', st_limitBytes = lb\<rparr>))"
proof (rule downloadLoop_invariant [OF assms,
        where P = "\<lambda>x. offset m \<le> offset x
           \<and> state_file x = (if offset x = offset m then state_file m
                        else Some (Json \<lparr>st_offset = offset x, st_limitBytes = lb\<rparr>))"])
  show "offset m \<le> offset m \<and> state_file m = (if offset m = offset m then state_file m
                        else Some (Json \<lparr>st_offset = offset m, st_limitBytes = lb\<rparr>))"
    by simp
next
  fix x :: machine and evs :: "event list"
  assume "offset m \<le> offset x \<and> state_file x = (if offset x = offset m then state_file m
                        else Some (Json \<lparr>st_offset = offset x, st_limitBytes = lb\<rparr>))"
  then show "offset m \<le> offset (record_events evs x)
      \<and> state_file (record_events evs x) = (if offset (record_events evs x) = offset m then state_file m
            else Some (Json \<lparr>st_offset = offset (record_events evs x), st_limitBytes = lb\<rparr>))"
    by simp
next
  fix x :: machine and recs :: "string list"
  assume "offset m \<le> offset x \<and> state_file x = (if offset x = offset m then state_file m
                        else Some (Json \<lparr>st_offset = offset x, st_limitBytes = lb\<rparr>))"
    and "recs \<noteq> []"
  then have "offset m < offset x + length recs" by (cases recs) auto
  then show "offset m \<le> offset (acceptChunk e lb recs x)
      \<and> state_file (acceptChunk e lb recs x)
          = (if offset (acceptChunk e lb recs x) = offset m then state_file m
             else Some (Json \<lparr>st_offset = offset (acceptChunk e lb recs x), st_limitBytes = lb\<rparr>))"
    by (simp add: acceptChunk_fields)
qed

lemma downloadLoop_no_Close:
  assumes "downloadLoop e tmo totalRecords lb m = (why, m')"
    and "\<forall>ts. WriterWrite ts \<in> set (trace m) \<longrightarrow> Close \<notin> set ts"
  shows "\<forall>ts. WriterWrite ts \<in> set (trace m') \<longrightarrow> Close \<notin> set ts"
  by (rule downloadLoop_invariant [OF assms(1),
        where P = "\<lambda>x. \<forall>ts. WriterWrite ts \<in> set (trace x) \<longrightarrow> Close \<notin> set ts"])
     (use assms(2) in \<open>auto simp: acceptChunk_fields Close_notin_chunkData\<close>)

lemma downloadLoop_no_unlink:
  assumes "downloadLoop e tmo totalRecords lb m = (why, m')"
    and "UnlinkState \<notin> set (trace m)"
  shows "UnlinkState \<notin> set (trace m')"
  by (rule downloadLoop_invariant [OF assms(1), where P = "\<lambda>x. UnlinkState \<notin> set (trace x)"])
     (use assms(2) in \<open>auto simp: acceptChunk_fields\<close>)

section \<open>Opening the stream\<close>

lemma openWriter_fields:
  "offset (openWriter m) = offset m"
  "state_file (openWriter m) = state_file m"
  "data_file (openWriter m) \<noteq> None"
  "isFirstChunk (openWriter m) = (offset m = 0)"
  "trace (openWriter m) = trace m @ (if offset m = 0 then [CreateWriteStream FlagW, WriterWrite [Open]]
                                      else [CreateWriteStream FlagA])"
  by (simp_all add: openWriter_def Let_def writer_defs)

lemma contents_openWriter:
  "buffered m = [] \<Longrightarrow>
     contents (openWriter m) = (if offset m = 0 then [Open]
                               else (case data_file m of None \<Rightarrow> [] | Some ts \<Rightarrow> ts))"
  by (simp add: openWriter_def Let_def writer_defs contents_def)

lemma init_part_000_fields:
  "offset (init_part_000 d) = persistedOffset (state_file d)"
  "state_file (init_part_000 d) = state_file d"
  "data_file (init_part_000 d) = data_file d"
  "buffered (init_part_000 d) = []"
  "downloadedBytes (init_part_000 d)
     = (if persistedOffset (state_file d) > 0 \<and> data_file d \<noteq> None then fileSize (data_file d) else 0)"
  "\<forall>ev \<in> set (trace (init_part_000 d)). \<not> touchesFiles ev"
  by (auto simp: init_part_000_def persistedOffset_def split: prod.splits)

lemma bytes_openWriter_init:
  "downloadedBytes (openWriter (record_events evs (init_part_000 d)))
     = byteLength (contents (openWriter (record_events evs (init_part_000 d))))"
  by (auto simp: openWriter_def Let_def writer_defs contents_def init_part_000_fields fileSize_def
        byteLength_def)

lemma arrayPrefix_Nil: "arrayPrefix [] = [Open]"
  by (simp add: arrayPrefix_def)

lemma wellFormed_openWriter_init:
  assumes "inSync d"
  shows "wellFormed (openWriter (record_events evs (init_part_000 d)))"
proof (cases "persistedOffset (state_file d) = 0")
  case True
  then show ?thesis
    by (simp add: wellFormed_def contents_openWriter init_part_000_fields openWriter_fields
          validPrefix_def arrayPrefix_Nil)
next
  case False
  with assms obtain ts where "data_file d = Some ts" "validPrefix ts"
      "length (recordsOf ts) = persistedOffset (state_file d)"
    by (auto simp: inSync_def split: option.splits)
  with False show ?thesis
    by (simp add: wellFormed_def contents_openWriter init_part_000_fields openWriter_fields)
qed

lemma writer_end_fields:
  "data_file (writer_end m) = Some (contents m)"
  "buffered (writer_end m) = []"
  "state_file (writer_end m) = state_file m"
  "offset (writer_end m) = offset m"
  "downloadedBytes (writer_end m) = downloadedBytes m"
  "trace (writer_end m) = trace m @ [WriterEnd]"
  by (simp_all add: writer_defs contents_def)

lemma not_both: "lessThan_number n t \<Longrightarrow> \<not> greaterEq_number n t"
  by (cases t) auto

section \<open>Leaving the loop at the limit or on a failed fetch\<close>

lemma getDatasetSize_quiet: "\<forall>ev \<in> set (fst (getDatasetSize r)). \<not> touchesFiles ev"
  by (induction r rule: getDatasetSize.induct) (auto simp: fallback_def)

lemma saveState_fields:
  "state_file (saveState off lb m) = Some (Json \<lparr>st_offset = off, st_limitBytes = lb\<rparr>)"
  "contents (saveState off lb m) = contents m"
  "offset (saveState off lb m) = offset m"
  "downloadedBytes (saveState off lb m) = downloadedBytes m"
  "trace (saveState off lb m) = trace m @ [SaveState off lb]"
  by (simp_all add: writer_defs contents_def)

lemma quiet_no_write:
  "\<forall>ev \<in> set evs. \<not> touchesFiles ev \<Longrightarrow> WriterWrite ts \<notin> set evs \<and> UnlinkState \<notin> set evs"
  by auto

text \<open>The machine that enters the loop of \<^verbatim>\<open>part_000\<close>.\<close>

lemma loop_part_000_unfold:
  "loop_part_000 e lb m =
     downloadLoop e 60000 (snd (getDatasetSize (count_reply e))) lb
       (openWriter (record_events (fst (getDatasetSize (count_reply e))) m))"
  by (simp add: loop_part_000_def split: prod.splits)

lemma entry_part_000:
  fixes d :: disk and evs :: "event list"
  defines "m0 \<equiv> openWriter (record_events evs (init_part_000 d))"
  assumes "\<forall>ev \<in> set evs. \<not> touchesFiles ev"
  shows "offset m0 = persistedOffset (state_file d)"
    and "state_file m0 = state_file d"
    and "data_file m0 \<noteq> None"
    and "downloadedBytes m0 = byteLength (contents m0)"
    and "inSync d \<Longrightarrow> wellFormed m0"
    and "\<forall>ts. WriterWrite ts \<in> set (trace m0) \<longrightarrow> Close \<notin> set ts"
    and "UnlinkState \<notin> set (trace m0)"
proof -
  show "offset m0 = persistedOffset (state_file d)" "state_file m0 = state_file d"
    "data_file m0 \<noteq> None"
    by (simp_all add: m0_def openWriter_fields init_part_000_fields)
  show "downloadedBytes m0 = byteLength (contents m0)"
    unfolding m0_def by (rule bytes_openWriter_init)
  show "inSync d \<Longrightarrow> wellFormed m0"
    unfolding m0_def by (rule wellFormed_openWriter_init)
  have q: "\<forall>ev \<in> set (trace (init_part_000 d) @ evs). \<not> touchesFiles ev"
    using assms(2) init_part_000_fields(6) [of d] by auto
  from quiet_no_write [OF q]
  have nw: "WriterWrite ts \<notin> set (trace (init_part_000 d) @ evs)"
    and nu: "UnlinkState \<notin> set (trace (init_part_000 d) @ evs)" for ts
    by blast+
  show "\<forall>ts. WriterWrite ts \<in> set (trace m0) \<longrightarrow> Close \<notin> set ts"
    using nw by (auto simp: m0_def openWriter_fields)
  show "UnlinkState \<notin> set (trace m0)"
    using nu by (auto simp: m0_def openWriter_fields)
qed

text \<open>
  Claim C2. When the loop of \<^verbatim>\<open>part_000\<close> is left because the byte limit was reached
  or because a page could not be fetched in three attempts, the run ends paused or
  failed, no write holds the closing bracket and the state file is not removed; the
  stream is flushed; if the files agreed before the run, the dataset file is an array
  prefix of exactly \<^verbatim>\<open>offset\<close> records; and the state file holds the offset after the
  last chunk written: saved by the \<^verbatim>\<open>catch\<close> on a failure, and on the limit as the
  last accepted chunk left it (as the run found it, if it accepted none).
\<close>

theorem limit_or_failure_keeps_array_open:
  assumes ask: "askUserForLimit (parseFloat e) (answers e) (downloadedBytes (init_part_000 d))
                  (st_limitBytes (snd (readState (state_file d)))) = Resolved lb"
    and loop: "loop_part_000 e lb (init_part_000 d) = (Some w, m1)"
    and why: "w = LimitReached \<or> w = Threw err"
    and run: "downloadDataset_part_000 e d = (out, m')"
  shows "out = (if w = LimitReached then Paused else Failed err)
     \<and> (\<forall>ts. WriterWrite ts \<in> set (trace m') \<longrightarrow> Close \<notin> set ts)
     \<and> UnlinkState \<notin> set (trace m')
     \<and> buffered m' = []
     \<and> (inSync d \<longrightarrow>
          (\<exists>ts. data_file m' = Some ts \<and> validPrefix ts \<and> length (recordsOf ts) = offset m'))
     \<and> state_file m' =
          (if w = LimitReached \<and> offset m' = persistedOffset (state_file d) then state_file d
           else Some (Json \<lparr>st_offset = offset m', st_limitBytes = lb\<rparr>))
     \<and> (\<forall>s. state_file m' = Some (Json s) \<longrightarrow> st_offset s = offset m')"
proof -
  define evs where "evs = fst (getDatasetSize (count_reply e))"
  define totalRecords where "totalRecords = snd (getDatasetSize (count_reply e))"
  define m0 where "m0 = openWriter (record_events evs (init_part_000 d))"
  have quiet: "\<forall>ev \<in> set evs. \<not> touchesFiles ev"
    unfolding evs_def by (rule getDatasetSize_quiet)
  note entry = entry_part_000 [OF quiet, of d, folded m0_def]
  from loop have dl: "downloadLoop e 60000 totalRecords lb m0 = (Some w, m1)"
    by (simp add: loop_part_000_unfold evs_def totalRecords_def m0_def)
  from downloadLoop_Some(1) [OF dl] have below: "\<not> greaterEq_number (offset m1) totalRecords"
    by (rule not_both)
  from downloadLoop_state [OF dl] entry(1,2) have
    st: "state_file m1 = (if offset m1 = persistedOffset (state_file d) then state_file d
                          else Some (Json \<lparr>st_offset = offset m1, st_limitBytes = lb\<rparr>))"
    by simp
  from downloadLoop_no_Close [OF dl entry(6)]
  have nc: "\<forall>ts. WriterWrite ts \<in> set (trace m1) \<longrightarrow> Close \<notin> set ts" .
  from downloadLoop_no_unlink [OF dl entry(7)] have nu: "UnlinkState \<notin> set (trace m1)" .
  have wf: "wellFormed m1" if "inSync d"
    using downloadLoop_wellFormed [OF dl entry(5) [OF that]] .
  from run ask loop have fin: "finish_part_000 totalRecords lb (Some w, m1) = (out, m')"
    by (simp add: downloadDataset_part_000_def proceed_part_000_def totalRecords_def)
  have persisted: "st_offset s = persistedOffset (state_file d)" if "state_file d = Some (Json s)" for s
    using that by (simp add: persistedOffset_def readState_parsed)
  from why show ?thesis
  proof
    assume w: "w = LimitReached"
    with fin below have out: "out = Paused"
      and m': "m' = writer_end (record_events [Console (PausedNotice (offset m1))] m1)"
      by auto
    from m' st have "state_file m'
        = (if offset m' = persistedOffset (state_file d) then state_file d
           else Some (Json \<lparr>st_offset = offset m', st_limitBytes = lb\<rparr>))"
      by (simp add: writer_end_fields)
    moreover from this persisted
    have "\<forall>s. state_file m' = Some (Json s) \<longrightarrow> st_offset s = offset m'"
      by (auto split: if_splits)
    moreover have "\<exists>ts. data_file m' = Some ts \<and> validPrefix ts \<and> length (recordsOf ts) = offset m'"
      if "inSync d"
      using wf [OF that] m' by (simp add: writer_end_fields wellFormed_def)
    ultimately show ?thesis
      using w out m' nc nu by (auto simp: writer_end_fields)
  next
    assume w: "w = Threw err"
    with fin have out: "out = Failed err"
      and m': "m' = writer_end (saveState (offset m1) lb
                      (record_events [Console (InterruptedNotice err (offset m1))] m1))"
      by auto
    from m' have "state_file m' = Some (Json \<lparr>st_offset = offset m', st_limitBytes = lb\<rparr>)"
      by (simp add: writer_end_fields saveState_fields)
    moreover have "\<exists>ts. data_file m' = Some ts \<and> validPrefix ts \<and> length (recordsOf ts) = offset m'"
      if "inSync d"
      using wf [OF that] m' by (simp add: writer_end_fields saveState_fields wellFormed_def)
    ultimately show ?thesis
      using w out m' nc nu by (auto simp: writer_end_fields saveState_fields)
  qed
qed


lemmas run_defs =
  downloadDataset_part_000_def init_part_000_def proceed_part_000_def loop_part_000_def
  openWriter_def loopBody_def acceptChunk_def writer_defs fileSize_def byteLength_def Let_def
  zero_state_def readState_def parse_defs fallback_def HARDCODED_TOTAL_def CHUNK_SIZE_def
  downloadLoop.simps fetchPage_3 empty_disk_def

lemma bytesOfGB_small: "bytesOfGB (1 / 100000000) = 10"
proof -
  have "\<lfloor>(4194304::rat) / 390625\<rfloor> = 10"
    by (simp add: floor_eq_iff)
  then show ?thesis by (simp add: bytesOfGB_def)
qed

lemma limit_env_ask:
  "askUserForLimit (parseFloat limit_env) (answers limit_env)
      (downloadedBytes (init_part_000 empty_disk))
      (st_limitBytes (snd (readState (state_file empty_disk)))) = Resolved (Some 10)"
  by (simp add: limit_env_def run_defs bytesOfGB_small)

lemma limit_env_loop:
  "loop_part_000 limit_env (Some 10) (init_part_000 empty_disk) =
     (Some LimitReached,
      \<lparr>data_file = Some [Open, Rec ''{}'', Sep, Rec ''{}'', Sep, Rec ''{}'', Sep, Rec ''{}''],
       state_file = Some (Json \<lparr>st_offset = 4, st_limitBytes = Some 10\<rparr>),
       buffered = [], offset = 4, downloadedBytes = 12, isFirstChunk = False,
       trace = [CountQuery 5000, CreateWriteStream FlagW, WriterWrite [Open],
                PageQuery 50000 0 '':id'' 60000, WriterWrite [Rec ''{}'', Sep, Rec ''{}''],
                AwaitDrain, SaveState 2 (Some 10),
                PageQuery 50000 2 '':id'' 60000, WriterWrite [Sep, Rec ''{}'', Sep, Rec ''{}''],
                AwaitDrain, SaveState 4 (Some 10),
                PageQuery 50000 4 '':id'' 60000, Console (LimitReachedNotice 10)]\<rparr>)"
  by (simp add: limit_env_def run_defs)


lemma failing_env_ask:
  "askUserForLimit (parseFloat failing_env) (answers failing_env)
      (downloadedBytes (init_part_000 empty_disk))
      (st_limitBytes (snd (readState (state_file empty_disk)))) = Resolved None"
  by (simp add: failing_env_def run_defs)

lemma failing_env_loop:
  "loop_part_000 failing_env None (init_part_000 empty_disk) =
     (Some (Threw ''ECONNRESET''),
      \<lparr>data_file = Some [], state_file = Some (Json \<lparr>st_offset = 2, st_limitBytes = None\<rparr>),
       buffered = [Open, Rec ''{}'', Sep, Rec ''{}''], offset = 2, downloadedBytes = 6,
       isFirstChunk = False,
       trace = [CountQuery 5000, Console (SizeFetchFailed ''timeout of 5000ms exceeded''),
                Console SizeFallback, CreateWriteStream FlagW, WriterWrite [Open],
                PageQuery 50000 0 '':id'' 60000, WriterWrite [Rec ''{}'', Sep, Rec ''{}''],
                SaveState 2 None,
                PageQuery 50000 2 '':id'' 60000, Console (RetryNotice 1 2), Sleep 2000,
                PageQuery 50000 2 '':id'' 60000, Console (RetryNotice 2 2), Sleep 2000,
                PageQuery 50000 2 '':id'' 60000]\<rparr>)"
  by (simp add: failing_env_def run_defs)

lemma inSync_empty_disk: "inSync empty_disk"
  by (simp add: inSync_def empty_disk_def persistedOffset_def readState_def zero_state_def)

lemma limit_env_run:
  "downloadDataset_part_000 limit_env empty_disk =
     (Paused,
      \<lparr>data_file = Some [Open, Rec ''{}'', Sep, Rec ''{}'', Sep, Rec ''{}'', Sep, Rec ''{}''],
       state_file = Some (Json \<lparr>st_offset = 4, st_limitBytes = Some 10\<rparr>),
       buffered = [], offset = 4, downloadedBytes = 12, isFirstChunk = False,
       trace = [CountQuery 5000, CreateWriteStream FlagW, WriterWrite [Open],
                PageQuery 50000 0 '':id'' 60000, WriterWrite [Rec ''{}'', Sep, Rec ''{}''],
                AwaitDrain, SaveState 2 (Some 10),
                PageQuery 50000 2 '':id'' 60000, WriterWrite [Sep, Rec ''{}'', Sep, Rec ''{}''],
                AwaitDrain, SaveState 4 (Some 10),
                PageQuery 50000 4 '':id'' 60000, Console (LimitReachedNotice 10),
                Console (PausedNotice 4), WriterEnd]\<rparr>)"
  by (simp add: limit_env_def run_defs bytesOfGB_small)

lemma failing_env_run:
  "downloadDataset_part_000 failing_env empty_disk =
     (Failed ''ECONNRESET'',
      \<lparr>data_file = Some [Open, Rec ''{}'', Sep, Rec ''{}''],
       state_file = Some (Json \<lparr>st_offset = 2, st_limitBytes = None\<rparr>),
       buffered = [], offset = 2, downloadedBytes = 6, isFirstChunk = False,
       trace = [CountQuery 5000, Console (SizeFetchFailed ''timeout of 5000ms exceeded''),
                Console SizeFallback, CreateWriteStream FlagW, WriterWrite [Open],
                PageQuery 50000 0 '':id'' 60000, WriterWrite [Rec ''{}'', Sep, Rec ''{}''],
                SaveState 2 None,
                PageQuery 50000 2 '':id'' 60000, Console (RetryNotice 1 2), Sleep 2000,
                PageQuery 50000 2 '':id'' 60000, Console (RetryNotice 2 2), Sleep 2000,
                PageQuery 50000 2 '':id'' 60000,
                Console (InterruptedNotice ''ECONNRESET'' 2), SaveState 2 None, WriterEnd]\<rparr>)"
  by (simp add: failing_env_def run_defs)

theorem limit_or_failure_keeps_array_open_witness:
  "fst (downloadDataset_part_000 limit_env empty_disk) = Paused
   \<and> data_file (snd (downloadDataset_part_000 limit_env empty_disk))
       = Some [Open, Rec ''{}'', Sep, Rec ''{}'', Sep, Rec ''{}'', Sep, Rec ''{}'']
   \<and> state_file (snd (downloadDataset_part_000 limit_env empty_disk))
       = Some (Json \<lparr>st_offset = 4, st_limitBytes = Some 10\<rparr>)
   \<and> fst (downloadDataset_part_000 failing_env empty_disk) = Failed ''ECONNRESET''
   \<and> data_file (snd (downloadDataset_part_000 failing_env empty_disk))
       = Some [Open, Rec ''{}'', Sep, Rec ''{}'']
   \<and> state_file (snd (downloadDataset_part_000 failing_env empty_disk))
       = Some (Json \<lparr>st_offset = 2, st_limitBytes = None\<rparr>)"
  using limit_or_failure_keeps_array_open
          [OF limit_env_ask limit_env_loop disjI1 [OF refl] limit_env_run]
        limit_or_failure_keeps_array_open
          [OF failing_env_ask failing_env_loop disjI2 [OF refl] failing_env_run]
  by (simp add: limit_env_run failing_env_run)

section \<open>Leaving the loop on an empty page\<close>

lemma part_000_empty_page_pauses:
  assumes "loop_part_000 e lb m = (Some EmptyPage, m1)"
  shows "proceed_part_000 e lb m
           = (Paused, writer_end (record_events [Console (PausedNotice (offset m1))] m1))"
proof -
  from assms have "downloadLoop e 60000 (snd (getDatasetSize (count_reply e))) lb
       (openWriter (record_events (fst (getDatasetSize (count_reply e))) m)) = (Some EmptyPage, m1)"
    by (simp add: loop_part_000_unfold)
  from downloadLoop_Some(1) [OF this]
  have "\<not> greaterEq_number (offset m1) (snd (getDatasetSize (count_reply e)))"
    by (rule not_both)
  with assms show ?thesis by (simp add: proceed_part_000_def)
qed

lemma download_js_empty_page_completes:
  "finish_download_js (Some EmptyPage, m1)
     = (Completed,
        record_events [Console CompletedNotice] (unlinkState (writer_end (writer_write [Close] m1))))"
  by simp

lemma download_js_short_dataset:
  "downloadDataset_download_js short_dataset_env empty_disk =
     (Completed,
      \<lparr>data_file = Some [Open, Rec ''{}'', Sep, Rec ''{}'', Close], state_file = None,
       buffered = [], offset = 2, downloadedBytes = 6, isFirstChunk = False,
       trace = [CountQuery 5000, Console (SizeFetchFailed ''timeout of 5000ms exceeded''),
                Console SizeFallback, CreateWriteStream FlagW, WriterWrite [Open],
                PageQuery 50000 0 '':id'' 45000, WriterWrite [Rec ''{}'', Sep, Rec ''{}''],
                AwaitDrain, SaveState 2 None, PageQuery 50000 2 '':id'' 45000,
                WriterWrite [Close], WriterEnd, UnlinkState, Console CompletedNotice]\<rparr>)"
  by (simp add: short_dataset_env_def downloadDataset_download_js_def init_download_js_def run_defs)

text \<open>
  Claim C1. In \<^verbatim>\<open>part_000\<close> the run over the two-record dataset is left on the empty
  page at offset 2, below the assumed total 211670894, and ends paused: no closing
  bracket is written and the state record stays. (\<^verbatim>\<open>download.js\<close> completes on the
  same input.)
\<close>

theorem part_000_empty_page_run:
  "downloadDataset_part_000 short_dataset_env empty_disk =
     (Paused,
      \<lparr>data_file = Some [Open, Rec ''{}'', Sep, Rec ''{}''],
       state_file = Some (Json \<lparr>st_offset = 2, st_limitBytes = None\<rparr>),
       buffered = [], offset = 2, downloadedBytes = 6, isFirstChunk = False,
       trace = [CountQuery 5000, Console (SizeFetchFailed ''timeout of 5000ms exceeded''),
                Console SizeFallback, CreateWriteStream FlagW, WriterWrite [Open],
                PageQuery 50000 0 '':id'' 60000, WriterWrite [Rec ''{}'', Sep, Rec ''{}''],
                AwaitDrain, SaveState 2 None, PageQuery 50000 2 '':id'' 60000,
                Console (PausedNotice 2), WriterEnd]\<rparr>)"
  by (simp add: short_dataset_env_def run_defs)

section \<open>The byte limit\<close>

lemma resume_env_run:
  "downloadDataset_part_000 resume_env resumed_disk =
     (Completed,
      \<lparr>data_file = Some [Open, Rec ''{}'', Sep, Rec ''{}'', Close], state_file = None,
       buffered = [], offset = 2, downloadedBytes = 6, isFirstChunk = False,
       trace = [CountQuery 5000, CreateWriteStream FlagA,
                PageQuery 50000 1 '':id'' 60000, WriterWrite [Sep, Rec ''{}''],
                AwaitDrain, SaveState 2 (Some 4), WriterWrite [Close], Console CompletedNotice,
                UnlinkState, WriterEnd]\<rparr>)"
  by (simp add: resume_env_def resumed_disk_def run_defs)

text \<open>
  Claim C3, as stated, fails. With the limit 4 and every chunk of 2 or 3 bytes, the
  resumed run writes its chunk at 3 accumulated bytes, reaches the assumed total and
  closes the array: the file has 4 + 3 bytes, not fewer.
\<close>

theorem closing_bracket_reaches_limit_plus_chunk:
  "fst (downloadDataset_part_000 resume_env resumed_disk) = Completed
   \<and> askUserForLimit (parseFloat resume_env) (answers resume_env)
        (downloadedBytes (init_part_000 resumed_disk))
        (st_limitBytes (snd (readState (state_file resumed_disk)))) = Resolved (Some 4)
   \<and> byteLength (chunkData True 0 [''{}'']) = 2
   \<and> byteLength (chunkData False 0 [''{}'']) = 3
   \<and> fileSize (data_file (snd (downloadDataset_part_000 resume_env resumed_disk))) = 4 + 3
   \<and> \<not> fileSize (data_file (snd (downloadDataset_part_000 resume_env resumed_disk))) < 4 + 3"
  by (simp add: resume_env_run) (simp add: resume_env_def resumed_disk_def run_defs)

lemma loopBody_at_limit:
  assumes "b \<le> downloadedBytes m"
  shows "\<exists>why evs. loopBody e tmo (Some b) m = Stop why (record_events evs m)
           \<and> (\<forall>ev \<in> set evs. \<not> touchesFiles ev)"
proof (cases "loopBody e tmo (Some b) m")
  case (Stop why m')
  with loopBody_Stop [OF Stop] show ?thesis by blast
next
  case (Continue m')
  from loopBody_Continue [OF Continue] assms show ?thesis by auto
qed

lemma loopBody_below_limit:
  "loopBody e tmo (Some b) m = Continue m' \<Longrightarrow> downloadedBytes m < b"
  using loopBody_Continue [of e tmo "Some b" m m'] by auto

lemma downloadLoop_bound:
  assumes "downloadLoop e tmo totalRecords (Some b) m = (why, m')"
    and "\<forall>off k recs first. page_reply e off k = Page recs \<longrightarrow> byteLength (chunkData first 0 recs) \<le> W"
    and "downloadedBytes m < b + W"
  shows "downloadedBytes m' < b + W"
proof (rule downloadLoop_invariant [OF assms(1), where P = "\<lambda>x. downloadedBytes x < b + W"])
  show "downloadedBytes m < b + W" by (rule assms(3))
next
  fix x :: machine and evs :: "event list"
  assume "downloadedBytes x < b + W"
  then show "downloadedBytes (record_events evs x) < b + W" by simp
next
  fix x :: machine and recs :: "string list"
  assume p: "page_reply e (offset x) 0 = Page recs \<or> page_reply e (offset x) 1 = Page recs
             \<or> page_reply e (offset x) 2 = Page recs"
    and l: "\<forall>b'. Some b = Some b' \<longrightarrow> downloadedBytes x < b'"
  from p assms(2) have "byteLength (chunkData (isFirstChunk x) 0 recs) \<le> W" by blast
  moreover from l have "downloadedBytes x < b" by simp
  ultimately show "downloadedBytes (acceptChunk e (Some b) recs x) < b + W"
    by (simp add: acceptChunk_fields)
qed

lemma writer_write_fields:
  "contents (writer_write ts m) = contents m @ ts"
  "offset (writer_write ts m) = offset m"
  "downloadedBytes (writer_write ts m) = downloadedBytes m"
  "state_file (writer_write ts m) = state_file m"
  "trace (writer_write ts m) = trace m @ [WriterWrite ts]"
  by (simp_all add: writer_defs contents_def)

lemma unlinkState_fields:
  "contents (unlinkState m) = contents m"
  "offset (unlinkState m) = offset m"
  "downloadedBytes (unlinkState m) = downloadedBytes m"
  "state_file (unlinkState m) = None"
  "trace (unlinkState m) = trace m @ (if state_file m \<noteq> None then [UnlinkState] else [])"
  by (simp_all add: writer_defs contents_def)

text \<open>The three ways in which \<^verbatim>\<open>part_000\<close> ends after the loop.\<close>

lemma finish_part_000_cases:
  assumes "finish_part_000 totalRecords lb (why, m1) = (out, m')"
  obtains err where "why = Some (Threw err)" "out = Failed err"
      "m' = writer_end (saveState (offset m1) lb
              (record_events [Console (InterruptedNotice err (offset m1))] m1))"
  | "\<forall>err. why \<noteq> Some (Threw err)" "greaterEq_number (offset m1) totalRecords" "out = Completed"
      "m' = writer_end (unlinkState (record_events [Console CompletedNotice] (writer_write [Close] m1)))"
  | "\<forall>err. why \<noteq> Some (Threw err)" "\<not> greaterEq_number (offset m1) totalRecords" "out = Paused"
      "m' = writer_end (record_events [Console (PausedNotice (offset m1))] m1)"
  using assms
  by (cases "(totalRecords, lb, (why, m1))" rule: finish_part_000.cases)
     (auto split: if_splits)

lemma finish_part_000_size:
  assumes "finish_part_000 totalRecords lb (why, m1) = (out, m')"
    and "downloadedBytes m1 = byteLength (contents m1)"
  shows "downloadedBytes m' = downloadedBytes m1
     \<and> fileSize (data_file m') = downloadedBytes m1 + (if out = Completed then 1 else 0)"
  using assms(1)
proof (cases rule: finish_part_000_cases)
  case (1 err)
  with assms(2) show ?thesis
    by (simp add: writer_end_fields saveState_fields fileSize_def)
next
  case 2
  with assms(2) show ?thesis
    by (simp add: writer_end_fields unlinkState_fields writer_write_fields fileSize_def
          byteLength_append) (simp add: byteLength_def)
next
  case 3
  with assms(2) show ?thesis
    by (simp add: writer_end_fields fileSize_def)
qed

text \<open>
  Claim C3, amended. With the limit \<open>b\<close> the check before the write compares the bytes
  accumulated before the chunk with \<open>b\<close>: an iteration that starts with \<open>b\<close> bytes or
  more stops the loop and writes nothing, and a chunk is only written from fewer than
  \<open>b\<close> bytes. So, if every chunk weighs at most \<open>W\<close> bytes and the run starts with fewer
  than \<open>b + W\<close> bytes (one byte on a fresh start, the size of the file on a resumed
  one), the accumulated byte count ends below \<open>b + W\<close>, and the size of the file is that
  count, plus the one byte of the closing bracket when the run completes.
\<close>

theorem limit_check_bounds_size:
  assumes ask: "askUserForLimit (parseFloat e) (answers e) (downloadedBytes (init_part_000 d))
                  (st_limitBytes (snd (readState (state_file d)))) = Resolved (Some b)"
    and weights: "\<forall>off k recs first. page_reply e off k = Page recs
                    \<longrightarrow> byteLength (chunkData first 0 recs) \<le> W"
    and start: "(if persistedOffset (state_file d) = 0 then 1 else fileSize (data_file d)) < b + W"
    and run: "downloadDataset_part_000 e d = (out, m')"
  shows "(\<forall>m tmo. b \<le> downloadedBytes m \<longrightarrow>
            (\<exists>why evs. loopBody e tmo (Some b) m = Stop why (record_events evs m)
                \<and> (\<forall>ev \<in> set evs. \<not> touchesFiles ev)))
     \<and> (\<forall>m tmo m2. loopBody e tmo (Some b) m = Continue m2 \<longrightarrow> downloadedBytes m < b)
     \<and> downloadedBytes m' < b + W
     \<and> fileSize (data_file m') = downloadedBytes m' + (if out = Completed then 1 else 0)"
proof -
  define evs where "evs = fst (getDatasetSize (count_reply e))"
  define totalRecords where "totalRecords = snd (getDatasetSize (count_reply e))"
  define m0 where "m0 = openWriter (record_events evs (init_part_000 d))"
  have quiet: "\<forall>ev \<in> set evs. \<not> touchesFiles ev"
    unfolding evs_def by (rule getDatasetSize_quiet)
  note entry = entry_part_000 [OF quiet, of d, folded m0_def]
  obtain why m1 where dl: "downloadLoop e 60000 totalRecords (Some b) m0 = (why, m1)"
    by (cases "downloadLoop e 60000 totalRecords (Some b) m0") auto
  then have loop: "loop_part_000 e (Some b) (init_part_000 d) = (why, m1)"
    by (simp add: loop_part_000_unfold evs_def totalRecords_def m0_def)
  from run ask loop have fin: "finish_part_000 totalRecords (Some b) (why, m1) = (out, m')"
    by (simp add: downloadDataset_part_000_def proceed_part_000_def totalRecords_def)
  have "downloadedBytes m0 = (if persistedOffset (state_file d) = 0 then 1 else fileSize (data_file d))"
    by (auto simp: m0_def openWriter_def Let_def writer_defs init_part_000_fields fileSize_def)
  with start have "downloadedBytes m0 < b + W" by simp
  from downloadLoop_bound [OF dl weights this] have b1: "downloadedBytes m1 < b + W" .
  from downloadLoop_bytes [OF dl entry(4)] have "downloadedBytes m1 = byteLength (contents m1)" .
  from finish_part_000_size [OF fin this] b1
  have "downloadedBytes m' < b + W"
    and "fileSize (data_file m') = downloadedBytes m' + (if out = Completed then 1 else 0)"
    by simp_all
  then show ?thesis
    using loopBody_at_limit [of b _ e] loopBody_below_limit [of e _ b] by blast
qed


lemma limit_env_weights:
  "\<forall>off k recs first. page_reply limit_env off k = Page recs
      \<longrightarrow> byteLength (chunkData first 0 recs) \<le> 6"
  by (auto simp: limit_env_def byteLength_def)

lemma limit_env_start:
  "(if persistedOffset (state_file empty_disk) = 0 then 1 else fileSize (data_file empty_disk))
     < 10 + (6::nat)"
  by (simp add: empty_disk_def persistedOffset_def readState_def zero_state_def)

theorem limit_check_bounds_size_witness:
  "fst (downloadDataset_part_000 limit_env empty_disk) = Paused
   \<and> downloadedBytes (snd (downloadDataset_part_000 limit_env empty_disk)) = 12
   \<and> fileSize (data_file (snd (downloadDataset_part_000 limit_env empty_disk))) = 12
   \<and> fileSize (data_file (snd (downloadDataset_part_000 limit_env empty_disk))) < 10 + 6"
  using limit_check_bounds_size [OF limit_env_ask limit_env_weights limit_env_start limit_env_run]
  by (simp add: limit_env_run)

section \<open>Declining to extend a reached limit\<close>

text \<open>
  Claim C10. In \<^verbatim>\<open>part_000\<close>, when the saved limit is reached (the bytes counted at the
  start are not below it) and the user answers \<^verbatim>\<open>N\<close>, or an amount that \<^verbatim>\<open>parseFloat\<close>
  reads as \<^verbatim>\<open>NaN\<close> or as no more than 0, the process exits with status 0; that exit is
  the only call of the run (no stream is created, no state saved), the stream holds
  nothing, and both files are as they were.
\<close>

theorem exit_at_reached_limit_leaves_files:
  assumes saved: "state_file d = Some (Json st)" "st_limitBytes st = Some limit"
    and reached: "limit \<le> (if st_offset st > 0 \<and> data_file d \<noteq> None
                            then fileSize (data_file d) else 0)"
    and typed: "answers e = answer # rest"
    and choice: "toUpperCase (trim answer) = ''N''
        \<or> (toUpperCase (trim answer) \<noteq> ''A''
            \<and> (case parseFloat e (toUpperCase (trim answer)) of
                  None \<Rightarrow> True | Some addedGB \<Rightarrow> addedGB \<le> 0))"
  shows "fst (downloadDataset_part_000 e d) = Exited 0
     \<and> disk_of (snd (downloadDataset_part_000 e d)) = d
     \<and> buffered (snd (downloadDataset_part_000 e d)) = []
     \<and> trace (snd (downloadDataset_part_000 e d)) = [ProcessExit 0]"
proof -
  from saved have rs: "readState (state_file d) = ([], st)"
    by (simp add: readState_parsed)
  from reached have "\<not> downloadedBytes (init_part_000 d) < limit"
    by (simp add: init_part_000_def rs)
  with saved(2) typed
  have "askUserForLimit (parseFloat e) (answers e) (downloadedBytes (init_part_000 d))
          (st_limitBytes (snd (readState (state_file d))))
        = askToExtend (parseFloat e) (answer # rest) (Some limit)"
    by (simp add: rs)
  also from choice have "\<dots> = Exits 0"
    by (auto simp: Let_def split: option.splits)
  finally show ?thesis
    by (simp add: downloadDataset_part_000_def init_part_000_def rs disk_of_def record_events_def)
qed

theorem exit_at_reached_limit_leaves_files_witness:
  "downloadDataset_part_000 (quitting_env '' n '') reached_disk
     = (Exited 0,
        \<lparr>data_file = Some [Open, Rec ''{}'', Sep, Rec ''{}''],
         state_file = Some (Json \<lparr>st_offset = 2, st_limitBytes = Some 4\<rparr>),
         buffered = [], offset = 2, downloadedBytes = 6, isFirstChunk = False,
         trace = [ProcessExit 0]\<rparr>)
   \<and> fst (downloadDataset_part_000 (quitting_env ''-1'') reached_disk) = Exited 0
   \<and> disk_of (snd (downloadDataset_part_000 (quitting_env ''-1'') reached_disk)) = reached_disk
   \<and> fst (downloadDataset_part_000 (quitting_env ''lots'') reached_disk) = Exited 0
   \<and> disk_of (snd (downloadDataset_part_000 (quitting_env ''lots'') reached_disk)) = reached_disk"
proof -
  have d: "state_file reached_disk = Some (Json \<lparr>st_offset = 2, st_limitBytes = Some 4\<rparr>)"
    "st_limitBytes \<lparr>st_offset = 2, st_limitBytes = Some 4\<rparr> = Some 4"
    "4 \<le> (if st_offset \<lparr>st_offset = 2, st_limitBytes = Some 4\<rparr> > 0 \<and> data_file reached_disk \<noteq> None
            then fileSize (data_file reached_disk) else 0)"
    by (simp_all add: reached_disk_def fileSize_def byteLength_def)
  have a: "answers (quitting_env a) = a # []" for a
    by (simp add: quitting_env_def)
  have c1: "toUpperCase (trim '' n '') = ''N''
        \<or> (toUpperCase (trim '' n '') \<noteq> ''A''
            \<and> (case parseFloat (quitting_env '' n '') (toUpperCase (trim '' n '')) of
                  None \<Rightarrow> True | Some addedGB \<Rightarrow> addedGB \<le> 0))"
    by (simp add: parse_defs)
  have c2: "toUpperCase (trim ''-1'') = ''N''
        \<or> (toUpperCase (trim ''-1'') \<noteq> ''A''
            \<and> (case parseFloat (quitting_env ''-1'') (toUpperCase (trim ''-1'')) of
                  None \<Rightarrow> True | Some addedGB \<Rightarrow> addedGB \<le> 0))"
    by (simp add: parse_defs quitting_env_def)
  have c3: "toUpperCase (trim ''lots'') = ''N''
        \<or> (toUpperCase (trim ''lots'') \<noteq> ''A''
            \<and> (case parseFloat (quitting_env ''lots'') (toUpperCase (trim ''lots'')) of
                  None \<Rightarrow> True | Some addedGB \<Rightarrow> addedGB \<le> 0))"
    by (simp add: parse_defs quitting_env_def)
  have m: "offset (snd (downloadDataset_part_000 (quitting_env '' n '') reached_disk)) = 2
     \<and> downloadedBytes (snd (downloadDataset_part_000 (quitting_env '' n '') reached_disk)) = 6
     \<and> \<not> isFirstChunk (snd (downloadDataset_part_000 (quitting_env '' n '') reached_disk))"
    by (simp add: quitting_env_def reached_disk_def run_defs)
  from exit_at_reached_limit_leaves_files [OF d a c1]
       exit_at_reached_limit_leaves_files [OF d a c2]
       exit_at_reached_limit_leaves_files [OF d a c3] m
  show ?thesis
    by (cases "downloadDataset_part_000 (quitting_env '' n '') reached_disk";
        cases "snd (downloadDataset_part_000 (quitting_env '' n '') reached_disk)")
       (simp add: disk_of_def reached_disk_def)
qed

section \<open>The order of the write and the save\<close>

lemma acceptChunk_disk:
  "buffered (acceptChunk e lb recs m)
     = (if can_write e (offset m) then buffered m @ chunkData (isFirstChunk m) 0 recs else [])"
  "data_file (acceptChunk e lb recs m)
     = (if can_write e (offset m) then data_file m
        else Some (contents m @ chunkData (isFirstChunk m) 0 recs))"
  by (simp_all add: acceptChunk_def Let_def writer_defs contents_def)

text \<open>
  Claim C6, as stated, fails: neither script flushes the stream before it saves the
  offset. In the first iteration of a fresh run in which \<^verbatim>\<open>writer.write\<close> returns
  \<^verbatim>\<open>true\<close>, the only call between the write of the chunk and \<^verbatim>\<open>saveState\<close> is none at
  all: the state file says 2 records while the stream still holds everything and the
  file holds no record.
\<close>

theorem offset_saved_while_chunk_buffered:
  "loopBody failing_env 60000 None (openWriter (init_part_000 empty_disk))
     = Continue
        \<lparr>data_file = Some [], state_file = Some (Json \<lparr>st_offset = 2, st_limitBytes = None\<rparr>),
         buffered = [Open, Rec ''{}'', Sep, Rec ''{}''], offset = 2, downloadedBytes = 6,
         isFirstChunk = False,
         trace = [CreateWriteStream FlagW, WriterWrite [Open], PageQuery 50000 0 '':id'' 60000,
                  WriterWrite [Rec ''{}'', Sep, Rec ''{}''], SaveState 2 None]\<rparr>
   \<and> \<not> persistedOffset (Some (Json \<lparr>st_offset = 2, st_limitBytes = None\<rparr>))
         \<le> length (recordsOf ([] :: token list))"
  by (simp add: failing_env_def run_defs persistedOffset_def)

text \<open>
  Claim C6, amended. For every accepted chunk the calls are, in this order: the write of
  the chunk to the stream; the wait for \<^verbatim>\<open>'drain'\<close>, only if the write returned
  \<^verbatim>\<open>false\<close>; the save of the new offset. After the wait the stream has emptied its
  buffer into the file; without it the chunk is still in the stream's buffer when the
  offset is saved.
\<close>

theorem chunk_written_then_offset_saved:
  "let chunk = chunkData (isFirstChunk m) 0 recs;
       m' = acceptChunk e lb recs m
   in trace m' = trace m @ [WriterWrite chunk]
                   @ (if can_write e (offset m) then [] else [AwaitDrain])
                   @ [SaveState (offset m + length recs) lb]
      \<and> state_file m' = Some (Json \<lparr>st_offset = offset m + length recs, st_limitBytes = lb\<rparr>)
      \<and> contents m' = contents m @ chunk
      \<and> buffered m' = (if can_write e (offset m) then buffered m @ chunk else [])
      \<and> data_file m' = (if can_write e (offset m) then data_file m else Some (contents m @ chunk))"
  by (simp add: Let_def acceptChunk_fields acceptChunk_disk)

theorem chunk_written_then_offset_saved_witness:
  "trace (acceptChunk limit_env (Some 10) [''{}''] (openWriter (init_part_000 empty_disk)))
     = [CreateWriteStream FlagW, WriterWrite [Open], WriterWrite [Rec ''{}''], AwaitDrain,
        SaveState 1 (Some 10)]
   \<and> data_file (acceptChunk limit_env (Some 10) [''{}''] (openWriter (init_part_000 empty_disk)))
     = Some [Open, Rec ''{}'']
   \<and> buffered (acceptChunk limit_env (Some 10) [''{}''] (openWriter (init_part_000 empty_disk))) = []"
  using chunk_written_then_offset_saved
          [of "openWriter (init_part_000 empty_disk)" "[''{}'']" limit_env "Some 10"]
  by (simp add: limit_env_def run_defs contents_def)

section \<open>The persisted offset across runs\<close>

lemma savedOffsets_append: "savedOffsets (xs @ ys) = savedOffsets xs @ savedOffsets ys"
  by (induction xs rule: savedOffsets.induct) auto

lemma savedOffsets_quiet: "\<forall>ev \<in> set evs. \<not> touchesFiles ev \<Longrightarrow> savedOffsets evs = []"
  by (induction evs rule: savedOffsets.induct) auto

lemma savedOffsets_Console [simp]: "savedOffsets (map Console msgs) = []"
  by (induction msgs) auto

lemma ascending_from_refl: "ascending_from m m"
  by (simp add: ascending_from_def)

lemma ascending_from_record_events:
  "ascending_from m x \<Longrightarrow> \<forall>ev \<in> set evs. \<not> touchesFiles ev \<Longrightarrow>
     ascending_from m (record_events evs x)"
  by (simp add: ascending_from_def savedOffsets_append savedOffsets_quiet)

lemma ascending_from_acceptChunk:
  assumes "ascending_from m x" and "recs \<noteq> []"
  shows "ascending_from m (acceptChunk e lb recs x)"
proof -
  from assms(1) obtain new where le: "offset m \<le> offset x"
    and new: "savedOffsets (trace x) = savedOffsets (trace m) @ new" "sorted new"
      "\<forall>off \<in> set new. offset m < off \<and> off \<le> offset x"
    by (auto simp: ascending_from_def)
  from assms(2) obtain r rs where recs: "recs = r # rs" by (cases recs) auto
  have "savedOffsets (trace (acceptChunk e lb recs x))
          = savedOffsets (trace m) @ (new @ [offset x + length recs])"
    using new(1) by (simp add: acceptChunk_fields savedOffsets_append)
  moreover have "sorted (new @ [offset x + length recs])"
    using new(2,3) by (auto simp: sorted_append)
  moreover have "\<forall>off \<in> set (new @ [offset x + length recs]).
                   offset m < off \<and> off \<le> offset x + length recs"
    using new(3) le by (auto simp: recs)
  ultimately show ?thesis
    unfolding ascending_from_def using le by (simp only: acceptChunk_fields) auto
qed

lemma downloadLoop_ascending:
  assumes "downloadLoop e tmo totalRecords lb m = (why, m')"
  shows "ascending_from m m'"
  by (rule downloadLoop_invariant [OF assms, where P = "ascending_from m"])
     (simp_all add: ascending_from_refl ascending_from_record_events ascending_from_acceptChunk)


lemma savedOffsets_getDatasetSize [simp]: "savedOffsets (fst (getDatasetSize r)) = []"
  by (rule savedOffsets_quiet) (rule getDatasetSize_quiet)

lemma init_download_js_fields:
  "offset (snd (init_download_js e d))
     = (if data_file d = None then 0 else persistedOffset (state_file d))"
  "state_file (snd (init_download_js e d)) = state_file d"
  "savedOffsets (trace (snd (init_download_js e d))) = []"
  "fst (init_download_js e d) = snd (getDatasetSize (count_reply e))"
  "data_file (snd (init_download_js e d))
     = (if data_file d = None \<or> persistedOffset (state_file d) = 0 then Some [] else data_file d)"
  "buffered (snd (init_download_js e d))
     = (if data_file d = None \<or> persistedOffset (state_file d) = 0 then [Open] else [])"
  by (auto simp: init_download_js_def persistedOffset_def Let_def writer_defs savedOffsets_append
        case_prod_beta)

lemma finish_download_js_cases:
  assumes "finish_download_js (why, m1) = (out, m')"
  obtains err where "why = Some (Threw err)" "out = Failed err"
      "m' = writer_end (record_events [Console (InterruptedNotice err (offset m1))] m1)"
  | "\<forall>err. why \<noteq> Some (Threw err)" "out = Completed"
      "m' = record_events [Console CompletedNotice] (unlinkState (writer_end (writer_write [Close] m1)))"
  using assms by (cases "(why, m1)" rule: finish_download_js.cases) auto

lemma ascending_from_start:
  assumes "ascending_from m0 m1" and "savedOffsets (trace m0) = []"
  shows "sorted (savedOffsets (trace m1))"
    and "\<forall>off \<in> set (savedOffsets (trace m1)). offset m0 < off \<and> off \<le> offset m1"
    and "offset m0 \<le> offset m1"
  using assms by (auto simp: ascending_from_def)

lemma persistedOffset_Json [simp]:
  "persistedOffset (Some (Json \<lparr>st_offset = off, st_limitBytes = lb\<rparr>)) = off"
  by (simp add: persistedOffset_def readState_def)

lemma download_js_offsets:
  fixes e :: env and d :: disk
  defines "m' \<equiv> snd (downloadDataset_download_js e d)"
  shows "sorted (savedOffsets (trace m'))"
    and "\<forall>off \<in> set (savedOffsets (trace m')). offset (snd (init_download_js e d)) < off"
    and "data_file d \<noteq> None \<Longrightarrow> state_file m' \<noteq> None \<Longrightarrow>
           persistedOffset (state_file d) \<le> persistedOffset (state_file m')"
proof -
  define m0 where "m0 = snd (init_download_js e d)"
  obtain why m1 where dl: "downloadLoop e 45000 (fst (init_download_js e d)) None m0 = (why, m1)"
    by (cases "downloadLoop e 45000 (fst (init_download_js e d)) None m0") auto
  have "downloadDataset_download_js e d = finish_download_js (why, m1)"
    using dl by (simp add: downloadDataset_download_js_def case_prod_beta m0_def)
  then obtain out where fin: "finish_download_js (why, m1) = (out, m')"
    by (cases "finish_download_js (why, m1)") (simp add: m'_def)
  have s0: "savedOffsets (trace m0) = []"
    by (simp add: m0_def init_download_js_fields)
  note asc = ascending_from_start [OF downloadLoop_ascending [OF dl] s0]
  note st = downloadLoop_state [OF dl]
  from fin have tr: "savedOffsets (trace m') = savedOffsets (trace m1)"
    by (cases rule: finish_download_js_cases)
       (simp_all add: writer_end_fields writer_write_fields unlinkState_fields savedOffsets_append)
  with asc show "sorted (savedOffsets (trace m'))"
    and "\<forall>off \<in> set (savedOffsets (trace m')). offset (snd (init_download_js e d)) < off"
    by (simp_all add: m0_def)
  show "persistedOffset (state_file d) \<le> persistedOffset (state_file m')"
    if ex: "data_file d \<noteq> None" and kept: "state_file m' \<noteq> None"
    using fin
  proof (cases rule: finish_download_js_cases)
    case (1 err)
    from ex have "offset m0 = persistedOffset (state_file d)" "state_file m0 = state_file d"
      by (auto simp: m0_def init_download_js_fields)
    with st 1 asc(3) show ?thesis
      by (auto simp: writer_end_fields split: if_splits)
  next
    case 2
    with kept show ?thesis
      by (simp add: writer_end_fields unlinkState_fields)
  qed
qed


lemma savedOffsets_init_part_000 [simp]: "savedOffsets (trace (init_part_000 d)) = []"
  by (rule savedOffsets_quiet) (rule init_part_000_fields)

lemma savedOffsets_entry_part_000:
  "savedOffsets (trace (openWriter (record_events (fst (getDatasetSize r)) (init_part_000 d)))) = []"
  by (simp add: openWriter_fields savedOffsets_append)

lemma part_000_offsets:
  fixes e :: env and d :: disk
  defines "m' \<equiv> snd (downloadDataset_part_000 e d)"
  shows "sorted (savedOffsets (trace m'))"
    and "\<forall>off \<in> set (savedOffsets (trace m')). persistedOffset (state_file d) \<le> off"
    and "state_file m' \<noteq> None \<Longrightarrow>
           persistedOffset (state_file d) \<le> persistedOffset (state_file m')"
proof -
  let ?ask = "askUserForLimit (parseFloat e) (answers e) (downloadedBytes (init_part_000 d))
                (st_limitBytes (snd (readState (state_file d))))"
  have "sorted (savedOffsets (trace m'))
      \<and> (\<forall>off \<in> set (savedOffsets (trace m')). persistedOffset (state_file d) \<le> off)
      \<and> (state_file m' \<noteq> None \<longrightarrow> persistedOffset (state_file d) \<le> persistedOffset (state_file m'))"
  proof (cases ?ask)
    case (Exits code)
    then have "m' = record_events [ProcessExit code] (init_part_000 d)"
      by (simp add: m'_def downloadDataset_part_000_def)
    then show ?thesis by (simp add: savedOffsets_append init_part_000_fields)
  next
    case Unanswered
    then have "m' = init_part_000 d"
      by (simp add: m'_def downloadDataset_part_000_def)
    then show ?thesis by (simp add: init_part_000_fields)
  next
    case (Resolved lb)
    define evs where "evs = fst (getDatasetSize (count_reply e))"
    define totalRecords where "totalRecords = snd (getDatasetSize (count_reply e))"
    define m0 where "m0 = openWriter (record_events evs (init_part_000 d))"
    have quiet: "\<forall>ev \<in> set evs. \<not> touchesFiles ev"
      unfolding evs_def by (rule getDatasetSize_quiet)
    note entry = entry_part_000 [OF quiet, of d, folded m0_def]
    obtain why m1 where dl: "downloadLoop e 60000 totalRecords lb m0 = (why, m1)"
      by (cases "downloadLoop e 60000 totalRecords lb m0") auto
    then have loop: "loop_part_000 e lb (init_part_000 d) = (why, m1)"
      by (simp add: loop_part_000_unfold evs_def totalRecords_def m0_def)
    with Resolved have "downloadDataset_part_000 e d = finish_part_000 totalRecords lb (why, m1)"
      by (simp add: downloadDataset_part_000_def proceed_part_000_def totalRecords_def)
    then obtain out where fin: "finish_part_000 totalRecords lb (why, m1) = (out, m')"
      by (cases "finish_part_000 totalRecords lb (why, m1)") (simp add: m'_def)
    have s0: "savedOffsets (trace m0) = []"
      unfolding m0_def evs_def by (rule savedOffsets_entry_part_000)
    note asc = ascending_from_start [OF downloadLoop_ascending [OF dl] s0]
    note st = downloadLoop_state [OF dl]
    from fin show ?thesis
    proof (cases rule: finish_part_000_cases)
      case (1 err)
      then have "savedOffsets (trace m') = savedOffsets (trace m1) @ [offset m1]"
        and "state_file m' = Some (Json \<lparr>st_offset = offset m1, st_limitBytes = lb\<rparr>)"
        by (simp_all add: writer_end_fields saveState_fields savedOffsets_append)
      with asc entry(1) show ?thesis
        by (auto simp: sorted_append dest: less_imp_le)
    next
      case 2
      then have "savedOffsets (trace m') = savedOffsets (trace m1)" and "state_file m' = None"
        by (simp_all add: writer_end_fields unlinkState_fields writer_write_fields savedOffsets_append)
      with asc entry(1) show ?thesis
        by (auto dest: less_imp_le)
    next
      case 3
      then have "savedOffsets (trace m') = savedOffsets (trace m1)"
        and "state_file m' = state_file m1"
        by (simp_all add: writer_end_fields savedOffsets_append)
      with asc entry(1,2) st show ?thesis
        by (auto dest: less_imp_le split: if_splits)
    qed
  qed
  then show "sorted (savedOffsets (trace m'))"
    and "\<forall>off \<in> set (savedOffsets (trace m')). persistedOffset (state_file d) \<le> off"
    and "state_file m' \<noteq> None \<Longrightarrow>
           persistedOffset (state_file d) \<le> persistedOffset (state_file m')"
    by blast+
qed

text \<open>
  Offset 0 with a dataset file that exists is the file being recreated from scratch:
  the run of \<^verbatim>\<open>download.js\<close> that follows a completed one finds no state, starts at
  offset 0 and truncates the file.
\<close>

lemma fresh_start_over_existing_file:
  "data_file completed_disk \<noteq> None
   \<and> offset (snd (init_download_js short_dataset_env completed_disk)) = 0
   \<and> data_file (snd (init_download_js short_dataset_env completed_disk)) = Some []
   \<and> disk_of (snd (downloadDataset_download_js short_dataset_env empty_disk)) = completed_disk"
  by (simp add: download_js_short_dataset disk_of_def)
     (simp add: completed_disk_def init_download_js_fields persistedOffset_def readState_def
        zero_state_def)

text \<open>
  What does hold. In \<^verbatim>\<open>download.js\<close> the run starts at offset 0 when the dataset file
  is missing, whatever offset was persisted, and at the persisted offset otherwise; at
  offset 0 the file is created or truncated and gets the opening bracket. In both
  scripts the offsets a run saves ascend and are not below the offset it started from,
  and a state file that the run leaves holds an offset not below the one it found (in
  \<^verbatim>\<open>download.js\<close>: when the dataset file existed).
\<close>

lemma offsets_ascend_missing_file_resets:
  "offset (snd (init_download_js e d))
     = (if data_file d = None then 0 else persistedOffset (state_file d))
   \<and> (offset (snd (init_download_js e d)) = 0 \<longrightarrow>
        data_file (snd (init_download_js e d)) = Some []
        \<and> buffered (snd (init_download_js e d)) = [Open])
   \<and> sorted (savedOffsets (trace (snd (downloadDataset_download_js e d))))
   \<and> (\<forall>off \<in> set (savedOffsets (trace (snd (downloadDataset_download_js e d)))).
         offset (snd (init_download_js e d)) < off)
   \<and> (data_file d \<noteq> None \<and> state_file (snd (downloadDataset_download_js e d)) \<noteq> None \<longrightarrow>
         persistedOffset (state_file d)
           \<le> persistedOffset (state_file (snd (downloadDataset_download_js e d))))
   \<and> sorted (savedOffsets (trace (snd (downloadDataset_part_000 e d))))
   \<and> (\<forall>off \<in> set (savedOffsets (trace (snd (downloadDataset_part_000 e d)))).
         persistedOffset (state_file d) \<le> off)
   \<and> (state_file (snd (downloadDataset_part_000 e d)) \<noteq> None \<longrightarrow>
         persistedOffset (state_file d)
           \<le> persistedOffset (state_file (snd (downloadDataset_part_000 e d))))"
  using download_js_offsets [where e = e and d = d] part_000_offsets [where e = e and d = d]
  by (auto simp: init_download_js_fields)


lemma download_js_orphaned_state:
  "downloadDataset_download_js short_dataset_env orphaned_disk =
     (Completed,
      \<lparr>data_file = Some [Open, Rec ''{}'', Sep, Rec ''{}'', Close], state_file = None,
       buffered = [], offset = 2, downloadedBytes = 6, isFirstChunk = False,
       trace = [CountQuery 5000, Console (SizeFetchFailed ''timeout of 5000ms exceeded''),
                Console SizeFallback, Console DatasetFileMissing,
                CreateWriteStream FlagW, WriterWrite [Open],
                PageQuery 50000 0 '':id'' 45000, WriterWrite [Rec ''{}'', Sep, Rec ''{}''],
                AwaitDrain, SaveState 2 None, PageQuery 50000 2 '':id'' 45000,
                WriterWrite [Close], WriterEnd, UnlinkState, Console CompletedNotice]\<rparr>)"
  by (simp add: short_dataset_env_def orphaned_disk_def downloadDataset_download_js_def
        init_download_js_def run_defs)

text \<open>
  \<^verbatim>\<open>part_000\<close> has no such reset: with the persisted offset 2 and no dataset file it
  appends to a new, empty file. Against a dataset of two records that file is the
  closing bracket alone.
\<close>

lemma part_000_orphaned_state:
  "downloadDataset_part_000 resume_env orphaned_disk =
     (Completed,
      \<lparr>data_file = Some [Close], state_file = None,
       buffered = [], offset = 2, downloadedBytes = 0, isFirstChunk = False,
       trace = [CountQuery 5000, CreateWriteStream FlagA, WriterWrite [Close],
                Console CompletedNotice, UnlinkState, WriterEnd]\<rparr>)"
  by (simp add: resume_env_def orphaned_disk_def run_defs)

lemma download_js_missing_file_reset:
  "downloadDataset_download_js four_records_env orphaned_disk =
     (Completed,
      \<lparr>data_file = Some [Open, Rec ''{}'', Sep, Rec ''{}'', Sep, Rec ''{}'', Sep, Rec ''{}'', Close],
       state_file = None,
       buffered = [], offset = 4, downloadedBytes = 12, isFirstChunk = False,
       trace = [CountQuery 5000, Console DatasetFileMissing,
                CreateWriteStream FlagW, WriterWrite [Open],
                PageQuery 50000 0 '':id'' 45000, WriterWrite [Rec ''{}'', Sep, Rec ''{}''],
                AwaitDrain, SaveState 2 None,
                PageQuery 50000 2 '':id'' 45000, WriterWrite [Sep, Rec ''{}'', Sep, Rec ''{}''],
                AwaitDrain, SaveState 4 None,
                WriterWrite [Close], WriterEnd, UnlinkState, Console CompletedNotice]\<rparr>)"
  by (simp add: four_records_env_def orphaned_disk_def downloadDataset_download_js_def
        init_download_js_def run_defs)

text \<open>
  Claim C5. A run that loads a positive offset and finds the dataset file missing
  should reset its offset to 0 and start fresh, so that offset 0 goes with a missing
  file. \<^verbatim>\<open>part_000\<close> does not: with the persisted offset 2 and no dataset file it keeps
  offset 2, opens a new file for appending, writes no opening bracket, fetches from
  offset 2 and puts a comma before the first record; on reaching the total it closes
  the array, deletes the state and reports completion. The file starts with a comma and
  lacks the first two records. (\<^verbatim>\<open>download.js\<close> resets and downloads all four.)
\<close>

theorem part_000_missing_file_not_reset:
  "data_file orphaned_disk = None
   \<and> persistedOffset (state_file orphaned_disk) = 2
   \<and> offset (init_part_000 orphaned_disk) = 2
   \<and> downloadDataset_part_000 four_records_env orphaned_disk =
     (Completed,
      \<lparr>data_file = Some [Sep, Rec ''{}'', Sep, Rec ''{}'', Close], state_file = None,
       buffered = [], offset = 4, downloadedBytes = 6, isFirstChunk = False,
       trace = [CountQuery 5000, CreateWriteStream FlagA,
                PageQuery 50000 2 '':id'' 60000, WriterWrite [Sep, Rec ''{}'', Sep, Rec ''{}''],
                AwaitDrain, SaveState 4 None,
                WriterWrite [Close], Console CompletedNotice, UnlinkState, WriterEnd]\<rparr>)"
  by (simp add: four_records_env_def orphaned_disk_def run_defs persistedOffset_def)

lemma offsets_ascend_missing_file_resets_example:
  "offset (snd (init_download_js short_dataset_env orphaned_disk)) = 0
   \<and> data_file (snd (init_download_js short_dataset_env orphaned_disk)) = Some []
   \<and> buffered (snd (init_download_js short_dataset_env orphaned_disk)) = [Open]
   \<and> savedOffsets (trace (snd (downloadDataset_download_js short_dataset_env orphaned_disk))) = [2]
   \<and> savedOffsets (trace (snd (downloadDataset_part_000 limit_env empty_disk))) = [2, 4]
   \<and> persistedOffset (state_file empty_disk)
        \<le> persistedOffset (state_file (snd (downloadDataset_part_000 limit_env empty_disk)))"
  using offsets_ascend_missing_file_resets [of short_dataset_env orphaned_disk]
        offsets_ascend_missing_file_resets [of limit_env empty_disk]
  by (simp add: download_js_orphaned_state limit_env_run)
     (simp add: orphaned_disk_def empty_disk_def persistedOffset_def readState_def zero_state_def)

section \<open>Separators across runs\<close>

lemma persistedOffset_None [simp]: "persistedOffset None = 0"
  by (simp add: persistedOffset_def readState_def zero_state_def)

lemma part_000_run_shape:
  assumes sync: "inSync d"
    and run: "downloadDataset_part_000 e d = (out, m')"
    and past: "out = Completed \<or> out = Paused \<or> out = Failed err"
  shows "\<exists>rs. length rs = offset m'
           \<and> data_file m' = Some (if out = Completed then arrayPrefix rs @ [Close] else arrayPrefix rs)
           \<and> persistedOffset (state_file m') = (if out = Completed then 0 else offset m')"
proof -
  let ?ask = "askUserForLimit (parseFloat e) (answers e) (downloadedBytes (init_part_000 d))
                (st_limitBytes (snd (readState (state_file d))))"
  from run past obtain lb where ask: "?ask = Resolved lb"
    by (cases ?ask) (auto simp: downloadDataset_part_000_def)
  define evs where "evs = fst (getDatasetSize (count_reply e))"
  define totalRecords where "totalRecords = snd (getDatasetSize (count_reply e))"
  define m0 where "m0 = openWriter (record_events evs (init_part_000 d))"
  have quiet: "\<forall>ev \<in> set evs. \<not> touchesFiles ev"
    unfolding evs_def by (rule getDatasetSize_quiet)
  note entry = entry_part_000 [OF quiet, of d, folded m0_def]
  obtain why m1 where dl: "downloadLoop e 60000 totalRecords lb m0 = (why, m1)"
    by (cases "downloadLoop e 60000 totalRecords lb m0") auto
  then have loop: "loop_part_000 e lb (init_part_000 d) = (why, m1)"
    by (simp add: loop_part_000_unfold evs_def totalRecords_def m0_def)
  from run ask loop have fin: "finish_part_000 totalRecords lb (why, m1) = (out, m')"
    by (simp add: downloadDataset_part_000_def proceed_part_000_def totalRecords_def)
  from downloadLoop_wellFormed [OF dl entry(5) [OF sync]]
  have c: "contents m1 = arrayPrefix (recordsOf (contents m1))"
    and n: "length (recordsOf (contents m1)) = offset m1"
    by (simp_all add: wellFormed_def validPrefix_def)
  from downloadLoop_state [OF dl] entry(1,2)
  have st: "persistedOffset (state_file m1) = offset m1"
    by (auto split: if_splits)
  from fin show ?thesis
  proof (cases rule: finish_part_000_cases)
    case (1 err)
    with c n show ?thesis
      by (intro exI [of _ "recordsOf (contents m1)"])
         (simp add: writer_end_fields saveState_fields)
  next
    case 2
    with c n show ?thesis
      by (intro exI [of _ "recordsOf (contents m1)"])
         (simp add: writer_end_fields unlinkState_fields writer_write_fields)
  next
    case 3
    with c n st show ?thesis
      by (intro exI [of _ "recordsOf (contents m1)"])
         (simp add: writer_end_fields)
  qed
qed

lemma recordsOf_closed: "recordsOf (arrayPrefix rs @ [Close]) = rs"
  by (simp add: recordsOf_append)

lemma part_000_run_unchanged:
  assumes "downloadDataset_part_000 e d = (out, m')"
    and "out = AwaitingAnswer \<or> out = Exited code"
  shows "disk_of m' = d"
proof -
  let ?ask = "askUserForLimit (parseFloat e) (answers e) (downloadedBytes (init_part_000 d))
                (st_limitBytes (snd (readState (state_file d))))"
  show ?thesis
  proof (cases ?ask)
    case (Resolved lb)
    obtain why m1 where "loop_part_000 e lb (init_part_000 d) = (why, m1)"
      by (cases "loop_part_000 e lb (init_part_000 d)") auto
    with Resolved assms(1)
    have "finish_part_000 (snd (getDatasetSize (count_reply e))) lb (why, m1) = (out, m')"
      by (simp add: downloadDataset_part_000_def proceed_part_000_def)
    then have "out = Completed \<or> out = Paused \<or> (\<exists>err. out = Failed err)"
      by (cases rule: finish_part_000_cases) auto
    with assms(2) show ?thesis by auto
  next
    case (Exits c)
    with assms(1) show ?thesis
      by (auto simp: downloadDataset_part_000_def disk_of_def init_part_000_fields)
  next
    case Unanswered
    with assms(1) show ?thesis
      by (auto simp: downloadDataset_part_000_def disk_of_def init_part_000_fields)
  qed
qed

lemma orderly_run:
  assumes "orderly d"
  shows "orderly (disk_of (snd (downloadDataset_part_000 e d)))"
proof -
  obtain out m' where run: "downloadDataset_part_000 e d = (out, m')"
    by (cases "downloadDataset_part_000 e d") auto
  consider (past) err where "out = Completed \<or> out = Paused \<or> out = Failed err"
    | (not) code where "out = AwaitingAnswer \<or> out = Exited code"
    by (cases out) auto
  then show ?thesis
  proof cases
    case past
    from assms have "inSync d" by (simp add: orderly_def)
    from part_000_run_shape [OF this run past] obtain rs where
      rs: "length rs = offset m'"
        "data_file m' = Some (if out = Completed then arrayPrefix rs @ [Close] else arrayPrefix rs)"
        "persistedOffset (state_file m') = (if out = Completed then 0 else offset m')"
      by blast
    then show ?thesis
      by (auto simp: run orderly_def disk_of_def inSync_def wellSeparated_def recordsOf_closed)
  next
    case not
    from part_000_run_unchanged [OF run not] assms show ?thesis by (simp add: run)
  qed
qed

lemma orderly_runs: "orderly d \<Longrightarrow> orderly (runs_part_000 envs d)"
  by (induction envs arbitrary: d) (simp_all add: orderly_run)

lemma orderly_empty_disk: "orderly empty_disk"
  by (simp add: orderly_def inSync_def empty_disk_def)

lemma count_Sep_closed: "count_list (arrayPrefix rs @ [Close]) Sep = length rs - 1"
  by (simp add: count_Sep_arrayPrefix)

text \<open>
  Claim C4. A chunk starts with a comma unless it is the first chunk of the whole
  download, and has one comma before each further record. So, after any number of runs
  of \<^verbatim>\<open>part_000\<close> that began with an empty data directory, a run that gets past the
  prompt leaves the dataset file as the opening bracket followed by exactly \<^verbatim>\<open>offset\<close>
  records with one comma between two neighbours (and the closing bracket, if the run
  completed): \<^verbatim>\<open>offset - 1\<close> commas (none for no record), the first record right after
  the bracket, the last record last. The state file, unless deleted on completion,
  holds that offset.
\<close>

theorem one_comma_between_records:
  assumes "downloadDataset_part_000 e (runs_part_000 envs empty_disk) = (out, m')"
    and "out = Completed \<or> out = Paused \<or> out = Failed err"
  shows "(\<forall>first r recs. chunkData first 0 (r # recs)
             = (if first then [] else [Sep]) @ Rec r # concat (map (\<lambda>x. [Sep, Rec x]) recs))
     \<and> (\<exists>rs. length rs = offset m'
           \<and> data_file m' = Some (if out = Completed then arrayPrefix rs @ [Close] else arrayPrefix rs)
           \<and> count_list (arrayPrefix rs) Sep = offset m' - 1
           \<and> (rs \<noteq> [] \<longrightarrow> arrayPrefix rs ! 1 = Rec (hd rs) \<and> last (arrayPrefix rs) = Rec (last rs))
           \<and> persistedOffset (state_file m') = (if out = Completed then 0 else offset m'))"
proof -
  from orderly_runs [OF orderly_empty_disk, of envs]
  have "inSync (runs_part_000 envs empty_disk)" by (simp add: orderly_def)
  from part_000_run_shape [OF this assms] obtain rs where
    rs: "length rs = offset m'"
      "data_file m' = Some (if out = Completed then arrayPrefix rs @ [Close] else arrayPrefix rs)"
      "persistedOffset (state_file m') = (if out = Completed then 0 else offset m')"
    by blast
  moreover from rs(1) have "count_list (arrayPrefix rs) Sep = offset m' - 1"
    by (simp add: count_Sep_arrayPrefix)
  moreover have "chunkData first 0 (r # recs)
             = (if first then [] else [Sep]) @ Rec r # concat (map (\<lambda>x. [Sep, Rec x]) recs)"
    for first r recs
    by (simp add: chunkData_Suc)
  ultimately show ?thesis using arrayPrefix_ends [of rs] by blast
qed


lemma failing_env_leaves:
  "runs_part_000 [failing_env] empty_disk =
     \<lparr>data_file = Some [Open, Rec ''{}'', Sep, Rec ''{}''],
      state_file = Some (Json \<lparr>st_offset = 2, st_limitBytes = None\<rparr>)\<rparr>"
  by (simp add: failing_env_run disk_of_def)

lemma limit_env_resumed_run:
  "downloadDataset_part_000 limit_env
       \<lparr>data_file = Some [Open, Rec ''{}'', Sep, Rec ''{}''],
        state_file = Some (Json \<lparr>st_offset = 2, st_limitBytes = None\<rparr>)\<rparr> =
     (Paused,
      \<lparr>data_file = Some [Open, Rec ''{}'', Sep, Rec ''{}'', Sep, Rec ''{}'', Sep, Rec ''{}''],
       state_file = Some (Json \<lparr>st_offset = 4, st_limitBytes = Some 10\<rparr>),
       buffered = [], offset = 4, downloadedBytes = 12, isFirstChunk = False,
       trace = [CountQuery 5000, CreateWriteStream FlagA,
                PageQuery 50000 2 '':id'' 60000, WriterWrite [Sep, Rec ''{}'', Sep, Rec ''{}''],
                AwaitDrain, SaveState 4 (Some 10),
                PageQuery 50000 4 '':id'' 60000, Console (LimitReachedNotice 10),
                Console (PausedNotice 4), WriterEnd]\<rparr>)"
  by (simp add: limit_env_def run_defs bytesOfGB_small)

theorem one_comma_between_records_witness:
  "fst (downloadDataset_part_000 limit_env (runs_part_000 [failing_env] empty_disk)) = Paused
   \<and> offset (snd (downloadDataset_part_000 limit_env (runs_part_000 [failing_env] empty_disk))) = 4
   \<and> data_file (snd (downloadDataset_part_000 limit_env (runs_part_000 [failing_env] empty_disk)))
       = Some [Open, Rec ''{}'', Sep, Rec ''{}'', Sep, Rec ''{}'', Sep, Rec ''{}'']
   \<and> count_list [Open, Rec ''{}'', Sep, Rec ''{}'', Sep, Rec ''{}'', Sep, Rec ''{}''] Sep = 4 - 1"
  unfolding failing_env_leaves
  using one_comma_between_records
          [of limit_env "[failing_env]", unfolded failing_env_leaves,
           OF limit_env_resumed_run disjI2 [OF disjI1 [OF refl]]]
  by (simp add: limit_env_resumed_run)

section \<open>\<^verbatim>\<open>download.js\<close> after a failed fetch\<close>

lemma entry_download_js:
  fixes e :: env and d :: disk
  defines "m0 \<equiv> snd (init_download_js e d)"
  shows "isFirstChunk m0 = (offset m0 = 0)"
    and "inSync d \<Longrightarrow> offset m0 = persistedOffset (state_file d)"
    and "inSync d \<Longrightarrow> wellFormed m0"
    and "\<forall>ts. WriterWrite ts \<in> set (trace m0) \<longrightarrow> Close \<notin> set ts"
    and "UnlinkState \<notin> set (trace m0)"
proof -
  show f: "isFirstChunk m0 = (offset m0 = 0)"
    by (simp add: m0_def init_download_js_def Let_def writer_defs case_prod_beta)
  show o: "offset m0 = persistedOffset (state_file d)" if "inSync d"
    using that by (auto simp: m0_def init_download_js_fields inSync_def)
  show "wellFormed m0" if "inSync d"
  proof (cases "data_file d = None \<or> persistedOffset (state_file d) = 0")
    case True
    then have "contents m0 = [Open]" "offset m0 = 0"
      by (auto simp: m0_def contents_def init_download_js_fields)
    with f show ?thesis
      by (simp add: wellFormed_def validPrefix_def arrayPrefix_Nil)
  next
    case False
    with that obtain ts where "data_file d = Some ts" "validPrefix ts"
      "length (recordsOf ts) = persistedOffset (state_file d)"
      by (auto simp: inSync_def split: option.splits)
    with False f o [OF that] show ?thesis
      by (simp add: wellFormed_def m0_def contents_def init_download_js_fields)
  qed
  have q: "\<forall>ev \<in> set (fst (getDatasetSize (count_reply e))). \<not> touchesFiles ev"
    by (rule getDatasetSize_quiet)
  from quiet_no_write [OF q]
  have nw: "WriterWrite ts \<notin> set (fst (getDatasetSize (count_reply e)))"
    and nu: "UnlinkState \<notin> set (fst (getDatasetSize (count_reply e)))" for ts
    by blast+
  show "\<forall>ts. WriterWrite ts \<in> set (trace m0) \<longrightarrow> Close \<notin> set ts"
    using nw by (auto simp: m0_def init_download_js_def Let_def writer_defs case_prod_beta)
  show "UnlinkState \<notin> set (trace m0)"
    using nu by (auto simp: m0_def init_download_js_def Let_def writer_defs case_prod_beta)
qed

text \<open>
  The same in \<^verbatim>\<open>download.js\<close>, which has no limit and whose \<^verbatim>\<open>catch\<close> does not save the
  state: after a failed fetch the array is left open and the state file is the one the
  last accepted chunk saved.
\<close>

lemma download_js_failure_keeps_array_open:
  assumes sync: "inSync d"
    and run: "downloadDataset_download_js e d = (Failed err, m')"
  shows "(\<forall>ts. WriterWrite ts \<in> set (trace m') \<longrightarrow> Close \<notin> set ts)
     \<and> UnlinkState \<notin> set (trace m')
     \<and> (\<exists>rs. data_file m' = Some (arrayPrefix rs) \<and> length rs = offset m')
     \<and> persistedOffset (state_file m') = offset m'"
proof -
  define m0 where "m0 = snd (init_download_js e d)"
  note entry = entry_download_js [where e = e and d = d, folded m0_def]
  obtain why m1 where dl: "downloadLoop e 45000 (fst (init_download_js e d)) None m0 = (why, m1)"
    by (cases "downloadLoop e 45000 (fst (init_download_js e d)) None m0") auto
  with run have fin: "finish_download_js (why, m1) = (Failed err, m')"
    by (simp add: downloadDataset_download_js_def case_prod_beta m0_def)
  then have m': "m' = writer_end (record_events [Console (InterruptedNotice err (offset m1))] m1)"
    by (cases rule: finish_download_js_cases) auto
  from downloadLoop_wellFormed [OF dl entry(3) [OF sync]]
  have c: "contents m1 = arrayPrefix (recordsOf (contents m1))"
    and n: "length (recordsOf (contents m1)) = offset m1"
    by (simp_all add: wellFormed_def validPrefix_def)
  have "state_file m0 = state_file d"
    by (simp add: m0_def init_download_js_fields)
  with downloadLoop_state [OF dl] entry(2) [OF sync]
  have st: "persistedOffset (state_file m1) = offset m1"
    by (auto split: if_splits)
  from downloadLoop_no_Close [OF dl entry(4)] downloadLoop_no_unlink [OF dl entry(5)] c n st
  show ?thesis
    unfolding m' by (auto simp: writer_end_fields)
qed

section \<open>A total that is not a number\<close>

text \<open>
  With \<^verbatim>\<open>NaN\<close> for the total the loop is never entered: \<^verbatim>\<open>download.js\<close> closes an empty
  array and reports success, \<^verbatim>\<open>part_000\<close> pauses at once.
\<close>

lemma download_js_garbled_count:
  "downloadDataset_download_js garbled_count_env empty_disk =
     (Completed,
      \<lparr>data_file = Some [Open, Close], state_file = None,
       buffered = [], offset = 0, downloadedBytes = 1, isFirstChunk = True,
       trace = [CountQuery 5000, CreateWriteStream FlagW, WriterWrite [Open],
                WriterWrite [Close], WriterEnd, Console CompletedNotice]\<rparr>)"
  by (simp add: garbled_count_env_def downloadDataset_download_js_def init_download_js_def run_defs)

lemma part_000_garbled_count:
  "downloadDataset_part_000 garbled_count_env empty_disk =
     (Paused,
      \<lparr>data_file = Some [Open], state_file = None,
       buffered = [], offset = 0, downloadedBytes = 1, isFirstChunk = True,
       trace = [CountQuery 5000, CreateWriteStream FlagW, WriterWrite [Open],
                Console (PausedNotice 0), WriterEnd]\<rparr>)"
  by (simp add: garbled_count_env_def run_defs)

end
